theory Spec2Isabelle
  imports Main
begin

section \<open>Data model\<close>

text \<open>
  The stores are the decoded record graphs of genieutils-py, as the tools under
  \<^verbatim>\<open>tools/\<close> use them. Only the fields the tools read or write are spelled out; every
  record also carries one field that the tools never touch, so that "all other fields
  are unchanged" is a statement about the record as a whole. Python integers are
  \<^typ>\<open>int\<close>; an attribute that may be \<^verbatim>\<open>None\<close> is an \<^typ>\<open>'a option\<close>.

  The tools test every attribute with \<^verbatim>\<open>hasattr\<close> before they read it. The records
  carry the attributes tested, with one exception: a projectile object need not have
  \<^verbatim>\<open>projectile_unit_id\<close> (the projectile class of genieutils-py does not declare it).
  That attribute is therefore optional in \<open>Projectile\<close>: \<open>None\<close> is a projectile object
  without the attribute, for which the test fails, and \<open>Some v\<close> one that has it with
  the value \<open>v\<close>.
\<close>

datatype error = ValueError | IndexError

record BuildingAnnex =
  annex_unit_id :: int
  misplacement :: "int \<times> int"

record Building =
  stack_unit_id :: int
  head_unit :: int
  transform_unit :: int
  pile_unit :: int
  annexes :: "BuildingAnnex option list"
  construction_sound :: int

record Projectile =
  projectile_unit_id :: "int option"
  projectile_type :: int

record DeadFish =
  tracking_unit :: int
  walking_graphic :: int

record TrainLocation =
  tl_unit_id :: int
  button_id :: int

record Creatable =
  train_locations :: "TrainLocation option list"
  hero_mode :: int

record Unit =
  id' :: int
  copy_id :: int
  base_id :: int
  dead_unit_id :: int
  blood_unit_id :: int
  building :: "Building option"
  projectile :: "Projectile option"
  dead_fish :: "DeadFish option"
  creatable :: "Creatable option"
  name :: string

record UnitHeaders =
  exists' :: int
  task_list :: "int list option"

record Civ =
  units :: "Unit option list"
  civ_name :: string

record Tech =
  effect_id :: int
  required_techs :: "int list"
  tech_name :: string

record Effect =
  effect_name :: string
  effect_commands :: "int list"

record DatFile =
  unit_headers :: "UnitHeaders option list"
  civs :: "Civ list"
  techs :: "Tech list"
  effects :: "Effect list"

text \<open>What the tools print, one constructor per message.\<close>

datatype msg =
  ExtendNotice int int
  | RangeNotice int int int
  | OverwriteNotice "int list"
  | RemapRangeNotice nat
  | SelfIdNotice nat
  | RemapGlobalNotice nat
  | EffectExtendNotice int int
  | TechExtendNotice int int
  | TechRangeNotice int int int int
  | EffectOverwriteNotice "(int \<times> string) list"
  | TechOverwriteNotice "(int \<times> string) list"

section \<open>Python list indexing\<close>

text \<open>
  \<^verbatim>\<open>xs[i]\<close> counts a negative index from the end and raises IndexError out of range.
\<close>

definition py_index :: "'a list \<Rightarrow> int \<Rightarrow> nat option" where
  "py_index xs i =
     (let n = int (length xs)
      in if 0 \<le> i \<and> i < n then Some (nat i)
         else if - n \<le> i \<and> i < 0 then Some (nat (n + i))
         else None)"

definition py_get :: "'a list \<Rightarrow> int \<Rightarrow> error + 'a" where
  "py_get xs i = (case py_index xs i of None \<Rightarrow> Inl IndexError | Some k \<Rightarrow> Inr (xs ! k))"

definition py_set :: "'a list \<Rightarrow> int \<Rightarrow> 'a \<Rightarrow> error + 'a list" where
  "py_set xs i v = (case py_index xs i of None \<Rightarrow> Inl IndexError | Some k \<Rightarrow> Inr (xs[k := v]))"

text \<open>\<^verbatim>\<open>_ensure_length\<close>: append the blank until the list has the length asked for.\<close>

function ensure_length :: "'a list \<Rightarrow> int \<Rightarrow> 'a \<Rightarrow> 'a list" where
  "ensure_length lst len blank_fill =
     (if int (length lst) < len then ensure_length (lst @ [blank_fill]) len blank_fill else lst)"
  by pat_completeness auto
termination
  by (relation "measure (\<lambda>(lst, len, b). nat (len - int (length lst)))") auto

declare ensure_length.simps [simp del]

definition blank_unit_header :: UnitHeaders where
  "blank_unit_header = \<lparr>exists' = 0, task_list = None\<rparr>"

definition is_blank_header :: "UnitHeaders option \<Rightarrow> bool" where
  "is_blank_header h = (case h of None \<Rightarrow> True | Some x \<Rightarrow> exists' x = 0)"

section \<open>The reference rewriter\<close>

text \<open>
  \<^verbatim>\<open>_remap_unit_id_refs_in_unit\<close>. The inner function \<^verbatim>\<open>do\<close> returns the mapped value
  and 1 for a key of the map, the value itself and 0 otherwise; the caller assigns the
  field only when the count is not 0.
\<close>

definition do_remap :: "(int \<rightharpoonup> int) \<Rightarrow> int \<Rightarrow> int \<times> nat" where
  "do_remap id_mapping v = (case id_mapping v of Some w \<Rightarrow> (w, 1) | None \<Rightarrow> (v, 0))"

definition remap_top_attrs :: "(int \<rightharpoonup> int) \<Rightarrow> Unit \<Rightarrow> Unit \<times> nat" where
  "remap_top_attrs m u =
     (let (v1, c1) = do_remap m (copy_id u);
          u1 = (if c1 \<noteq> 0 then u\<lparr>copy_id := v1\<rparr> else u);
          (v2, c2) = do_remap m (base_id u1);
          u2 = (if c2 \<noteq> 0 then u1\<lparr>base_id := v2\<rparr> else u1);
          (v3, c3) = do_remap m (dead_unit_id u2);
          u3 = (if c3 \<noteq> 0 then u2\<lparr>dead_unit_id := v3\<rparr> else u2);
          (v4, c4) = do_remap m (blood_unit_id u3);
          u4 = (if c4 \<noteq> 0 then u3\<lparr>blood_unit_id := v4\<rparr> else u3)
      in (u4, c1 + c2 + c3 + c4))"

fun remap_annexes :: "(int \<rightharpoonup> int) \<Rightarrow> BuildingAnnex option list \<Rightarrow> BuildingAnnex option list \<times> nat" where
  "remap_annexes m [] = ([], 0)"
| "remap_annexes m (None # xs) = (let (ys, n) = remap_annexes m xs in (None # ys, n))"
| "remap_annexes m (Some a # xs) =
     (let (v, c) = do_remap m (annex_unit_id a);
          a' = (if c \<noteq> 0 then a\<lparr>annex_unit_id := v\<rparr> else a);
          (ys, n) = remap_annexes m xs
      in (Some a' # ys, c + n))"

definition remap_building :: "(int \<rightharpoonup> int) \<Rightarrow> Building \<Rightarrow> Building \<times> nat" where
  "remap_building m b =
     (let (v1, c1) = do_remap m (stack_unit_id b);
          b1 = (if c1 \<noteq> 0 then b\<lparr>stack_unit_id := v1\<rparr> else b);
          (v2, c2) = do_remap m (head_unit b1);
          b2 = (if c2 \<noteq> 0 then b1\<lparr>head_unit := v2\<rparr> else b1);
          (v3, c3) = do_remap m (transform_unit b2);
          b3 = (if c3 \<noteq> 0 then b2\<lparr>transform_unit := v3\<rparr> else b2);
          (v4, c4) = do_remap m (pile_unit b3);
          b4 = (if c4 \<noteq> 0 then b3\<lparr>pile_unit := v4\<rparr> else b3);
          (ys, n) = remap_annexes m (annexes b4)
      in (b4\<lparr>annexes := ys\<rparr>, c1 + c2 + c3 + c4 + n))"

definition remap_projectile :: "(int \<rightharpoonup> int) \<Rightarrow> Projectile \<Rightarrow> Projectile \<times> nat" where
  "remap_projectile m p =
     (case projectile_unit_id p of
        None \<Rightarrow> (p, 0)
      | Some val \<Rightarrow>
          (let (v, c) = do_remap m val
           in (if c \<noteq> 0 then p\<lparr>projectile_unit_id := Some v\<rparr> else p, c)))"

definition remap_dead_fish :: "(int \<rightharpoonup> int) \<Rightarrow> DeadFish \<Rightarrow> DeadFish \<times> nat" where
  "remap_dead_fish m d =
     (let (v, c) = do_remap m (tracking_unit d)
      in (if c \<noteq> 0 then d\<lparr>tracking_unit := v\<rparr> else d, c))"

fun remap_train_locations :: "(int \<rightharpoonup> int) \<Rightarrow> TrainLocation option list \<Rightarrow> TrainLocation option list \<times> nat" where
  "remap_train_locations m [] = ([], 0)"
| "remap_train_locations m (None # xs) = (let (ys, n) = remap_train_locations m xs in (None # ys, n))"
| "remap_train_locations m (Some t # xs) =
     (let (v, c) = do_remap m (tl_unit_id t);
          t' = (if c \<noteq> 0 then t\<lparr>tl_unit_id := v\<rparr> else t);
          (ys, n) = remap_train_locations m xs
      in (Some t' # ys, c + n))"

definition remap_creatable :: "(int \<rightharpoonup> int) \<Rightarrow> Creatable \<Rightarrow> Creatable \<times> nat" where
  "remap_creatable m c =
     (let (ys, n) = remap_train_locations m (train_locations c)
      in (c\<lparr>train_locations := ys\<rparr>, n))"

text \<open>
  A sub-structure that is \<^verbatim>\<open>None\<close> is skipped, and so is a projectile without the
  attribute (\<^verbatim>\<open>projectile is not None and hasattr(projectile, "projectile_unit_id")\<close>).
\<close>

definition remap_opt :: "('a \<Rightarrow> 'a \<times> nat) \<Rightarrow> 'a option \<Rightarrow> 'a option \<times> nat" where
  "remap_opt f x = (case x of None \<Rightarrow> (None, 0) | Some y \<Rightarrow> (let (y', n) = f y in (Some y', n)))"

definition remap_unit_id_refs_in_unit :: "Unit \<Rightarrow> (int \<rightharpoonup> int) \<Rightarrow> Unit \<times> nat" where
  "remap_unit_id_refs_in_unit unit id_mapping =
     (let (u1, n1) = remap_top_attrs id_mapping unit;
          (b, n2) = remap_opt (remap_building id_mapping) (building u1);
          u2 = u1\<lparr>building := b\<rparr>;
          (p, n3) = remap_opt (remap_projectile id_mapping) (projectile u2);
          u3 = u2\<lparr>projectile := p\<rparr>;
          (d, n4) = remap_opt (remap_dead_fish id_mapping) (dead_fish u3);
          u4 = u3\<lparr>dead_fish := d\<rparr>;
          (c, n5) = remap_opt (remap_creatable id_mapping) (creatable u4);
          u5 = u4\<lparr>creatable := c\<rparr>
      in (u5, n1 + n2 + n3 + n4 + n5))"

text \<open>
  \<^verbatim>\<open>_iter_unit_id_refs_for_check\<close> lists the same fields with their paths. A path is
  one of the closed set of strings the function builds; \<open>F_building_annexes_unit_id i\<close>
  stands for \<^verbatim>\<open>building.annexes[i].unit_id\<close>, and \<open>F_id\<close> for the \<^verbatim>\<open>"id"\<close> the checker
  itself reports.
\<close>

datatype field_path =
  F_id | F_copy_id | F_base_id | F_dead_unit_id | F_blood_unit_id
  | F_building_stack_unit_id | F_building_head_unit | F_building_transform_unit
  | F_building_pile_unit | F_building_annexes_unit_id nat
  | F_projectile_projectile_unit_id | F_dead_fish_tracking_unit
  | F_creatable_train_locations_unit_id nat

fun annex_refs :: "nat \<Rightarrow> BuildingAnnex option list \<Rightarrow> (field_path \<times> int) list" where
  "annex_refs i [] = []"
| "annex_refs i (None # xs) = annex_refs (Suc i) xs"
| "annex_refs i (Some a # xs) = (F_building_annexes_unit_id i, annex_unit_id a) # annex_refs (Suc i) xs"

fun train_location_refs :: "nat \<Rightarrow> TrainLocation option list \<Rightarrow> (field_path \<times> int) list" where
  "train_location_refs i [] = []"
| "train_location_refs i (None # xs) = train_location_refs (Suc i) xs"
| "train_location_refs i (Some t # xs) =
     (F_creatable_train_locations_unit_id i, tl_unit_id t) # train_location_refs (Suc i) xs"

definition iter_unit_id_refs_for_check :: "Unit \<Rightarrow> (field_path \<times> int) list" where
  "iter_unit_id_refs_for_check unit =
     [(F_copy_id, copy_id unit), (F_base_id, base_id unit),
      (F_dead_unit_id, dead_unit_id unit), (F_blood_unit_id, blood_unit_id unit)]
     @ (case building unit of None \<Rightarrow> []
        | Some b \<Rightarrow>
            [(F_building_stack_unit_id, stack_unit_id b), (F_building_head_unit, head_unit b),
             (F_building_transform_unit, transform_unit b), (F_building_pile_unit, pile_unit b)]
            @ annex_refs 0 (annexes b))
     @ (case projectile unit of None \<Rightarrow> []
        | Some p \<Rightarrow>
            (case projectile_unit_id p of
               None \<Rightarrow> []
             | Some v \<Rightarrow> [(F_projectile_projectile_unit_id, v)]))
     @ (case dead_fish unit of None \<Rightarrow> []
        | Some d \<Rightarrow> [(F_dead_fish_tracking_unit, tracking_unit d)])
     @ (case creatable unit of None \<Rightarrow> []
        | Some c \<Rightarrow> train_location_refs 0 (train_locations c))"

section \<open>The unit implant\<close>

text \<open>
  \<^verbatim>\<open>implant_units_from_dat\<close>, called with parsed stores and \<^verbatim>\<open>output_path=None\<close>, as
  the orchestrator does. Source and target are two stores: the source is only read, the
  target is returned updated. A run that raises returns the error with the target as it
  was at the raise and the messages printed until then.
\<close>

definition n_units :: "DatFile \<Rightarrow> int" where
  "n_units d = (if civs d \<noteq> [] then int (length (units (civs d ! 0)))
                else int (length (unit_headers d)))"

definition resolve_count :: "int \<Rightarrow> int \<Rightarrow> int option \<Rightarrow> int option \<Rightarrow> error + int" where
  "resolve_count n_source source_start source_end count =
     (if source_start \<ge> n_source then Inl ValueError
      else case count of
        Some c \<Rightarrow> Inr (min c (n_source - source_start))
      | None \<Rightarrow>
          (case source_end of
             Some e \<Rightarrow>
               if e < source_start then Inl ValueError
               else if e \<ge> n_source then Inl ValueError
               else Inr (e - source_start + 1)
           | None \<Rightarrow> Inr (n_source - source_start)))"

text \<open>The dictionary \<^verbatim>\<open>{source_start + j: target_start + j for j in range(implant_count)}\<close>.\<close>

definition id_mapping_of :: "int \<Rightarrow> int \<Rightarrow> int \<Rightarrow> (int \<rightharpoonup> int)" where
  "id_mapping_of source_start target_start implant_count =
     map_of (map (\<lambda>j. (source_start + int j, target_start + int j)) [0..<nat implant_count])"

fun civs_nonblank_at :: "Civ list \<Rightarrow> int \<Rightarrow> error + bool" where
  "civs_nonblank_at [] idx = Inr False"
| "civs_nonblank_at (civ # cs) idx =
     (if idx < int (length (units civ)) then
        (case py_get (units civ) idx of
           Inl e \<Rightarrow> Inl e
         | Inr u \<Rightarrow> if u \<noteq> None then Inr True else civs_nonblank_at cs idx)
      else civs_nonblank_at cs idx)"

definition slot_overwritten :: "DatFile \<Rightarrow> int \<Rightarrow> error + bool" where
  "slot_overwritten tgt idx =
     (if idx \<ge> int (length (unit_headers tgt)) then Inr False
      else case py_get (unit_headers tgt) idx of
        Inl e \<Rightarrow> Inl e
      | Inr h \<Rightarrow> if \<not> is_blank_header h then Inr True else civs_nonblank_at (civs tgt) idx)"

fun collect_overwritten :: "DatFile \<Rightarrow> int list \<Rightarrow> error + int list" where
  "collect_overwritten tgt [] = Inr []"
| "collect_overwritten tgt (idx # rest) =
     (case slot_overwritten tgt idx of
        Inl e \<Rightarrow> Inl e
      | Inr b \<Rightarrow>
          (case collect_overwritten tgt rest of
             Inl e \<Rightarrow> Inl e
           | Inr xs \<Rightarrow> Inr (if b then idx # xs else xs)))"

definition header_for :: "DatFile \<Rightarrow> int \<Rightarrow> error + UnitHeaders option" where
  "header_for src src_idx =
     (if src_idx < int (length (unit_headers src)) then py_get (unit_headers src) src_idx
      else Inr (Some blank_unit_header))"

definition source_unit_for :: "DatFile \<Rightarrow> bool \<Rightarrow> nat \<Rightarrow> int \<Rightarrow> error + Unit option" where
  "source_unit_for src copy_extra_civs_from_first c src_idx =
     (if c < length (civs src) \<and> src_idx < int (length (units (civs src ! c))) then
        py_get (units (civs src ! c)) src_idx
      else if copy_extra_civs_from_first \<and> length (civs src) > 0
              \<and> src_idx < int (length (units (civs src ! 0))) then
        py_get (units (civs src ! 0)) src_idx
      else Inr None)"

definition clone_for_slot :: "(int \<rightharpoonup> int) \<Rightarrow> int \<Rightarrow> Unit option \<Rightarrow> Unit option" where
  "clone_for_slot id_mapping tgt_idx u =
     (case u of
        None \<Rightarrow> None
      | Some x \<Rightarrow> Some (fst (remap_unit_id_refs_in_unit (x\<lparr>id' := tgt_idx\<rparr>) id_mapping)))"

fun implant_civs ::
  "DatFile \<Rightarrow> bool \<Rightarrow> (int \<rightharpoonup> int) \<Rightarrow> int \<Rightarrow> int \<Rightarrow> nat list \<Rightarrow> DatFile
     \<Rightarrow> (error \<times> DatFile) + DatFile" where
  "implant_civs src cef m src_idx tgt_idx [] tgt = Inr tgt"
| "implant_civs src cef m src_idx tgt_idx (c # cs) tgt =
     (case source_unit_for src cef c src_idx of
        Inl e \<Rightarrow> Inl (e, tgt)
      | Inr u \<Rightarrow>
          (case py_set (units (civs tgt ! c)) tgt_idx (clone_for_slot m tgt_idx u) of
             Inl e \<Rightarrow> Inl (e, tgt)
           | Inr us \<Rightarrow>
               implant_civs src cef m src_idx tgt_idx cs
                 (tgt\<lparr>civs := (civs tgt)[c := (civs tgt ! c)\<lparr>units := us\<rparr>]\<rparr>)))"

definition implant_slot ::
  "DatFile \<Rightarrow> bool \<Rightarrow> (int \<rightharpoonup> int) \<Rightarrow> int \<Rightarrow> int \<Rightarrow> DatFile \<Rightarrow> (error \<times> DatFile) + DatFile" where
  "implant_slot src cef m src_idx tgt_idx tgt =
     (case header_for src src_idx of
        Inl e \<Rightarrow> Inl (e, tgt)
      | Inr h \<Rightarrow>
          (case py_set (unit_headers tgt) tgt_idx h of
             Inl e \<Rightarrow> Inl (e, tgt)
           | Inr hs \<Rightarrow>
               implant_civs src cef m src_idx tgt_idx [0..<length (civs tgt)]
                 (tgt\<lparr>unit_headers := hs\<rparr>)))"

fun implant_slots ::
  "DatFile \<Rightarrow> bool \<Rightarrow> (int \<rightharpoonup> int) \<Rightarrow> int \<Rightarrow> int \<Rightarrow> nat list \<Rightarrow> DatFile
     \<Rightarrow> (error \<times> DatFile) + DatFile" where
  "implant_slots src cef m source_start target_start [] tgt = Inr tgt"
| "implant_slots src cef m source_start target_start (i # rest) tgt =
     (case implant_slot src cef m (source_start + int i) (target_start + int i) tgt of
        Inl e \<Rightarrow> Inl e
      | Inr tgt' \<Rightarrow> implant_slots src cef m source_start target_start rest tgt')"

definition extend_target :: "DatFile \<Rightarrow> int \<Rightarrow> DatFile" where
  "extend_target tgt need_len =
     tgt\<lparr>unit_headers := ensure_length (unit_headers tgt) need_len (Some blank_unit_header),
         civs := map (\<lambda>civ. civ\<lparr>units := ensure_length (units civ) need_len None\<rparr>) (civs tgt)\<rparr>"

definition implant_units_from_dat ::
  "DatFile \<Rightarrow> DatFile \<Rightarrow> int \<Rightarrow> int option \<Rightarrow> int option \<Rightarrow> int \<Rightarrow> bool \<Rightarrow> bool
     \<Rightarrow> (error \<times> DatFile \<times> msg list) + (int \<times> DatFile \<times> msg list)" where
  "implant_units_from_dat source_data target_data source_start source_end count target_start
       warn_overwrite copy_extra_civs_from_first =
     (case resolve_count (n_units source_data) source_start source_end count of
        Inl e \<Rightarrow> Inl (e, target_data, [])
      | Inr implant_count \<Rightarrow>
          if implant_count \<le> 0 then Inl (ValueError, target_data, [])
          else
            let n_target_before = n_units target_data;
                need_len = target_start + implant_count;
                out1 = (if need_len > n_target_before
                        then [ExtendNotice n_target_before need_len] else [])
                       @ [RangeNotice source_start implant_count target_start];
                tgt1 = extend_target target_data need_len
            in (case collect_overwritten tgt1
                       (map (\<lambda>i. target_start + int i) [0..<nat implant_count]) of
                  Inl e \<Rightarrow> Inl (e, tgt1, out1)
                | Inr overwritten_indices \<Rightarrow>
                    let out2 = out1 @ (if overwritten_indices \<noteq> [] \<and> warn_overwrite
                                       then [OverwriteNotice (sort (remdups overwritten_indices))]
                                       else [])
                    in (case implant_slots source_data copy_extra_civs_from_first
                               (id_mapping_of source_start target_start implant_count)
                               source_start target_start [0..<nat implant_count] tgt1 of
                          Inl (e, tgt2) \<Rightarrow> Inl (e, tgt2, out2)
                        | Inr tgt2 \<Rightarrow> Inr (implant_count, tgt2, out2))))"

section \<open>Finalization: self ids and the global rewrite\<close>

text \<open>
  \<^verbatim>\<open>fix_implanted_unit_self_ids\<close>. The index set is given as the list of its members
  in the order the loop visits them.
\<close>

fun fix_self_ids_in_units :: "int list \<Rightarrow> Unit option list \<Rightarrow> nat \<Rightarrow> error + (Unit option list \<times> nat)" where
  "fix_self_ids_in_units [] us n = Inr (us, n)"
| "fix_self_ids_in_units (i # rest) us n =
     (if i < int (length us) then
        (case py_get us i of
           Inl e \<Rightarrow> Inl e
         | Inr None \<Rightarrow> fix_self_ids_in_units rest us n
         | Inr (Some u) \<Rightarrow>
             if id' u \<noteq> i then
               (case py_set us i (Some (u\<lparr>id' := i\<rparr>)) of
                  Inl e \<Rightarrow> Inl e
                | Inr us' \<Rightarrow> fix_self_ids_in_units rest us' (n + 1))
             else fix_self_ids_in_units rest us n)
      else fix_self_ids_in_units rest us n)"

fun fix_self_ids_in_civs :: "int list \<Rightarrow> Civ list \<Rightarrow> nat \<Rightarrow> error + (Civ list \<times> nat)" where
  "fix_self_ids_in_civs indices [] n = Inr ([], n)"
| "fix_self_ids_in_civs indices (civ # cs) n =
     (case fix_self_ids_in_units indices (units civ) n of
        Inl e \<Rightarrow> Inl e
      | Inr (us, n') \<Rightarrow>
          (case fix_self_ids_in_civs indices cs n' of
             Inl e \<Rightarrow> Inl e
           | Inr (cs', n'') \<Rightarrow> Inr (civ\<lparr>units := us\<rparr> # cs', n'')))"

definition fix_implanted_unit_self_ids :: "DatFile \<Rightarrow> int list \<Rightarrow> error + (DatFile \<times> nat \<times> msg list)" where
  "fix_implanted_unit_self_ids target_data unit_indices =
     (case fix_self_ids_in_civs unit_indices (civs target_data) 0 of
        Inl e \<Rightarrow> Inl e
      | Inr (cs, n) \<Rightarrow>
          Inr (target_data\<lparr>civs := cs\<rparr>, n, if n \<noteq> 0 then [SelfIdNotice n] else []))"

text \<open>\<^verbatim>\<open>remap_unit_copy_base_ids_global\<close>: every unit of every civilization.\<close>

fun remap_units :: "(int \<rightharpoonup> int) \<Rightarrow> Unit option list \<Rightarrow> Unit option list \<times> nat" where
  "remap_units m [] = ([], 0)"
| "remap_units m (None # us) = (let (us', n) = remap_units m us in (None # us', n))"
| "remap_units m (Some u # us) =
     (let (u', c) = remap_unit_id_refs_in_unit u m;
          (us', n) = remap_units m us
      in (Some u' # us', c + n))"

fun remap_civs :: "(int \<rightharpoonup> int) \<Rightarrow> Civ list \<Rightarrow> Civ list \<times> nat" where
  "remap_civs m [] = ([], 0)"
| "remap_civs m (civ # cs) =
     (let (us, c) = remap_units m (units civ);
          (cs', n) = remap_civs m cs
      in (civ\<lparr>units := us\<rparr> # cs', c + n))"

definition remap_unit_copy_base_ids_global :: "DatFile \<Rightarrow> (int \<rightharpoonup> int) \<Rightarrow> DatFile \<times> nat \<times> msg list" where
  "remap_unit_copy_base_ids_global target_data id_mapping =
     (let (cs, total) = remap_civs id_mapping (civs target_data)
      in (target_data\<lparr>civs := cs\<rparr>, total, if total \<noteq> 0 then [RemapGlobalNotice total] else []))"

definition finalize_unit_id_migration ::
  "DatFile \<Rightarrow> (int \<rightharpoonup> int) \<Rightarrow> int list \<Rightarrow> error + (DatFile \<times> (nat \<times> nat) \<times> msg list)" where
  "finalize_unit_id_migration target_data id_mapping implanted_indices =
     (case fix_implanted_unit_self_ids target_data implanted_indices of
        Inl e \<Rightarrow> Inl e
      | Inr (t1, n_id, out1) \<Rightarrow>
          (let (t2, n_refs, out2) = remap_unit_copy_base_ids_global t1 id_mapping
           in Inr (t2, (n_id, n_refs), out1 @ out2)))"

section \<open>The consistency check\<close>

text \<open>
  \<^verbatim>\<open>check_unit_id_coherence\<close>. An issue is the tuple of slot, civilization index, field
  path and offending value; the message of the source is a rendering of these four.
\<close>

type_synonym issue = "int \<times> nat \<times> field_path \<times> int"

definition unit_issues :: "int set \<Rightarrow> nat \<Rightarrow> int \<Rightarrow> Unit \<Rightarrow> issue list" where
  "unit_issues migrated_old_ids civ_idx ui u =
     (if id' u \<noteq> ui then [(ui, civ_idx, F_id, id' u)] else [])
     @ map (\<lambda>(path, val). (ui, civ_idx, path, val))
         (filter (\<lambda>(path, val). val \<in> migrated_old_ids) (iter_unit_id_refs_for_check u))"

fun check_units :: "int set \<Rightarrow> nat \<Rightarrow> Unit option list \<Rightarrow> int list \<Rightarrow> error + issue list" where
  "check_units old civ_idx us [] = Inr []"
| "check_units old civ_idx us (ui # rest) =
     (if ui \<ge> int (length us) then check_units old civ_idx us rest
      else case py_get us ui of
        Inl e \<Rightarrow> Inl e
      | Inr None \<Rightarrow> check_units old civ_idx us rest
      | Inr (Some u) \<Rightarrow>
          (case check_units old civ_idx us rest of
             Inl e \<Rightarrow> Inl e
           | Inr xs \<Rightarrow> Inr (unit_issues old civ_idx ui u @ xs)))"

fun check_civs :: "int set \<Rightarrow> int list \<Rightarrow> nat \<Rightarrow> Civ list \<Rightarrow> error + issue list" where
  "check_civs old indices civ_idx [] = Inr []"
| "check_civs old indices civ_idx (civ # cs) =
     (case check_units old civ_idx (units civ) indices of
        Inl e \<Rightarrow> Inl e
      | Inr xs \<Rightarrow>
          (case check_civs old indices (Suc civ_idx) cs of
             Inl e \<Rightarrow> Inl e
           | Inr ys \<Rightarrow> Inr (xs @ ys)))"

definition check_unit_id_coherence :: "DatFile \<Rightarrow> int list \<Rightarrow> int set \<Rightarrow> error + issue list" where
  "check_unit_id_coherence data implanted_indices migrated_old_ids =
     check_civs migrated_old_ids implanted_indices 0 (civs data)"

section \<open>The tech implant\<close>

text \<open>
  \<^verbatim>\<open>implant_techs_from_dat\<close>. The set \<^verbatim>\<open>effect_ids_to_implant\<close> is filled with the effect
  ids in the order of the techs. The order in which a loop over the set then meets its
  members belongs to the interpreter, not to the language: it is the argument \<open>visit\<close>,
  which takes the list of the ids added and returns the members as a loop meets them.
  Each loop over the set runs on the set as filled, so each meets the same order.

  The dictionary \<^verbatim>\<open>overwritten_effects\<close> is the list of its assignments; the notice reads
  it as \<^verbatim>\<open>sorted(overwritten_effects)\<close> does, keys ascending, each with the value assigned
  last.
\<close>

definition sorted_items :: "(int \<times> string) list \<Rightarrow> (int \<times> string) list" where
  "sorted_items kvs =
     map (\<lambda>k. (k, case map_of (rev kvs) k of Some n \<Rightarrow> n | None \<Rightarrow> []))
       (sort (remdups (map fst kvs)))"

text \<open>
  One visiting order, taken for the examples: the members ascending, each once. It is the
  order in which CPython meets a set such as \<open>{0, 1}\<close>.
\<close>

definition ascending :: "int list \<Rightarrow> int list" where
  "ascending xs = sort (remdups xs)"

fun collect_effect_ids :: "DatFile \<Rightarrow> int list \<Rightarrow> error + int list" where
  "collect_effect_ids src [] = Inr []"
| "collect_effect_ids src (src_idx # rest) =
     (case py_get (techs src) src_idx of
        Inl e \<Rightarrow> Inl e
      | Inr tech \<Rightarrow>
          if effect_id tech < 0 \<or> effect_id tech \<ge> int (length (effects src)) then Inl ValueError
          else (case collect_effect_ids src rest of
                  Inl e \<Rightarrow> Inl e
                | Inr xs \<Rightarrow> Inr (effect_id tech # xs)))"

fun overwritten_names :: "('a \<Rightarrow> string) \<Rightarrow> 'a list \<Rightarrow> int list \<Rightarrow> error + (int \<times> string) list" where
  "overwritten_names nm xs [] = Inr []"
| "overwritten_names nm xs (tgt_idx # rest) =
     (case py_get xs tgt_idx of
        Inl e \<Rightarrow> Inl e
      | Inr x \<Rightarrow>
          (case overwritten_names nm xs rest of
             Inl e \<Rightarrow> Inl e
           | Inr ys \<Rightarrow> Inr ((tgt_idx, nm x) # ys)))"

fun implant_effects :: "DatFile \<Rightarrow> int \<Rightarrow> int list \<Rightarrow> DatFile \<Rightarrow> (error \<times> DatFile) + DatFile" where
  "implant_effects src tech_offset [] tgt = Inr tgt"
| "implant_effects src tech_offset (eid # rest) tgt =
     (case py_get (effects src) eid of
        Inl e \<Rightarrow> Inl (e, tgt)
      | Inr eff \<Rightarrow>
          (case py_set (effects tgt) (eid + tech_offset) eff of
             Inl e \<Rightarrow> Inl (e, tgt)
           | Inr es \<Rightarrow> implant_effects src tech_offset rest (tgt\<lparr>effects := es\<rparr>)))"

definition shift_tech :: "int \<Rightarrow> int \<Rightarrow> int \<Rightarrow> Tech \<Rightarrow> Tech" where
  "shift_tech source_start source_tech_end tech_offset tech =
     tech\<lparr>effect_id := effect_id tech + tech_offset,
          required_techs :=
            map (\<lambda>r. if source_start \<le> r \<and> r \<le> source_tech_end then r + tech_offset else r)
              (required_techs tech)\<rparr>"

fun implant_tech_slots ::
  "DatFile \<Rightarrow> int \<Rightarrow> int \<Rightarrow> int \<Rightarrow> nat list \<Rightarrow> DatFile \<Rightarrow> (error \<times> DatFile) + DatFile" where
  "implant_tech_slots src source_start source_tech_end target_tech_start [] tgt = Inr tgt"
| "implant_tech_slots src source_start source_tech_end target_tech_start (i # rest) tgt =
     (case py_get (techs src) (source_start + int i) of
        Inl e \<Rightarrow> Inl (e, tgt)
      | Inr tech \<Rightarrow>
          (case py_set (techs tgt) (target_tech_start + int i)
                  (shift_tech source_start source_tech_end (target_tech_start - source_start) tech) of
             Inl e \<Rightarrow> Inl (e, tgt)
           | Inr ts \<Rightarrow>
               implant_tech_slots src source_start source_tech_end target_tech_start rest
                 (tgt\<lparr>techs := ts\<rparr>)))"

definition implant_techs_from_dat ::
  "(int list \<Rightarrow> int list) \<Rightarrow> DatFile \<Rightarrow> DatFile \<Rightarrow> int \<Rightarrow> int option \<Rightarrow> int option \<Rightarrow> int
     \<Rightarrow> bool \<Rightarrow> (error \<times> DatFile \<times> msg list) + (int \<times> DatFile \<times> msg list)" where
  "implant_techs_from_dat visit source_data target_data source_start source_end count
       target_tech_start warn_overwrite =
     (case resolve_count (int (length (techs source_data))) source_start source_end count of
        Inl e \<Rightarrow> Inl (e, target_data, [])
      | Inr implant_count \<Rightarrow>
          if implant_count \<le> 0 then Inl (ValueError, target_data, [])
          else
            let tech_offset = target_tech_start - source_start;
                source_tech_end = source_start + implant_count - 1
            in (case collect_effect_ids source_data
                       (map (\<lambda>i. source_start + int i) [0..<nat implant_count]) of
                  Inl e \<Rightarrow> Inl (e, target_data, [])
                | Inr eids \<Rightarrow>
                    let effect_ids_to_implant = visit eids;
                        max_effect_idx = Max (set (map (\<lambda>eid. eid + tech_offset) effect_ids_to_implant));
                        need_effect_len = max_effect_idx + 1;
                        need_tech_len = target_tech_start + implant_count
                    in (case py_get (effects target_data) 0 of
                          Inl e \<Rightarrow> Inl (e, target_data, [])
                        | Inr placeholder_effect \<Rightarrow>
                       (case py_get (techs target_data) 0 of
                          Inl e \<Rightarrow> Inl (e, target_data, [])
                        | Inr placeholder_tech \<Rightarrow>
                            let n_target_effects = int (length (effects target_data));
                                n_target_techs = int (length (techs target_data));
                                out1 = (if need_effect_len > n_target_effects
                                        then [EffectExtendNotice n_target_effects need_effect_len] else [])
                                       @ (if need_tech_len > n_target_techs
                                          then [TechExtendNotice n_target_techs need_tech_len] else [])
                                       @ [TechRangeNotice source_start implant_count target_tech_start tech_offset];
                                tgt1 = target_data
                                  \<lparr>effects := ensure_length (effects target_data) need_effect_len placeholder_effect,
                                   techs := ensure_length (techs target_data) need_tech_len placeholder_tech\<rparr>
                            in (case overwritten_names effect_name (effects tgt1)
                                       (map (\<lambda>eid. eid + tech_offset) effect_ids_to_implant) of
                                  Inl e \<Rightarrow> Inl (e, tgt1, out1)
                                | Inr overwritten_effects \<Rightarrow>
                               (case overwritten_names tech_name (techs tgt1)
                                       (map (\<lambda>i. target_tech_start + int i) [0..<nat implant_count]) of
                                  Inl e \<Rightarrow> Inl (e, tgt1, out1)
                                | Inr overwritten_techs \<Rightarrow>
                                    let out2 = out1
                                          @ (if warn_overwrite \<and> overwritten_effects \<noteq> []
                                             then [EffectOverwriteNotice (sorted_items overwritten_effects)]
                                             else [])
                                          @ (if warn_overwrite \<and> overwritten_techs \<noteq> []
                                             then [TechOverwriteNotice overwritten_techs] else [])
                                    in (case implant_effects source_data tech_offset effect_ids_to_implant tgt1 of
                                          Inl (e, tgt2) \<Rightarrow> Inl (e, tgt2, out2)
                                        | Inr tgt2 \<Rightarrow>
                                       (case implant_tech_slots source_data source_start source_tech_end
                                               target_tech_start [0..<nat implant_count] tgt2 of
                                          Inl (e, tgt3) \<Rightarrow> Inl (e, tgt3, out2)
                                        | Inr tgt3 \<Rightarrow> Inr (implant_count, tgt3, out2)))))))))"

section \<open>What a rewrite should produce\<close>

text \<open>
  The value a reference should hold after a rewrite with the relocation map \<open>m\<close>: the
  mapped value for a key of the map, the value itself otherwise; and the record whose
  enumerated reference fields hold these values while nothing else differs.
\<close>

definition relocate :: "(int \<rightharpoonup> int) \<Rightarrow> int \<Rightarrow> int" where
  "relocate m v = (case m v of Some w \<Rightarrow> w | None \<Rightarrow> v)"

definition hits :: "(int \<rightharpoonup> int) \<Rightarrow> int \<Rightarrow> nat" where
  "hits m v = (case m v of Some w \<Rightarrow> 1 | None \<Rightarrow> 0)"

definition ref_hits :: "(int \<rightharpoonup> int) \<Rightarrow> (field_path \<times> int) list \<Rightarrow> nat" where
  "ref_hits m rs = sum_list (map (\<lambda>r. hits m (snd r)) rs)"

definition rewrite_annex :: "(int \<rightharpoonup> int) \<Rightarrow> BuildingAnnex \<Rightarrow> BuildingAnnex" where
  "rewrite_annex m a = a\<lparr>annex_unit_id := relocate m (annex_unit_id a)\<rparr>"

definition rewrite_building :: "(int \<rightharpoonup> int) \<Rightarrow> Building \<Rightarrow> Building" where
  "rewrite_building m b =
     b\<lparr>stack_unit_id := relocate m (stack_unit_id b),
       head_unit := relocate m (head_unit b),
       transform_unit := relocate m (transform_unit b),
       pile_unit := relocate m (pile_unit b),
       annexes := map (map_option (rewrite_annex m)) (annexes b)\<rparr>"

definition rewrite_projectile :: "(int \<rightharpoonup> int) \<Rightarrow> Projectile \<Rightarrow> Projectile" where
  "rewrite_projectile m p =
     p\<lparr>projectile_unit_id := map_option (relocate m) (projectile_unit_id p)\<rparr>"

definition rewrite_dead_fish :: "(int \<rightharpoonup> int) \<Rightarrow> DeadFish \<Rightarrow> DeadFish" where
  "rewrite_dead_fish m d = d\<lparr>tracking_unit := relocate m (tracking_unit d)\<rparr>"

definition rewrite_train_location :: "(int \<rightharpoonup> int) \<Rightarrow> TrainLocation \<Rightarrow> TrainLocation" where
  "rewrite_train_location m t = t\<lparr>tl_unit_id := relocate m (tl_unit_id t)\<rparr>"

definition rewrite_creatable :: "(int \<rightharpoonup> int) \<Rightarrow> Creatable \<Rightarrow> Creatable" where
  "rewrite_creatable m c =
     c\<lparr>train_locations := map (map_option (rewrite_train_location m)) (train_locations c)\<rparr>"

definition rewrite_unit :: "(int \<rightharpoonup> int) \<Rightarrow> Unit \<Rightarrow> Unit" where
  "rewrite_unit m u =
     u\<lparr>copy_id := relocate m (copy_id u),
       base_id := relocate m (base_id u),
       dead_unit_id := relocate m (dead_unit_id u),
       blood_unit_id := relocate m (blood_unit_id u),
       building := map_option (rewrite_building m) (building u),
       projectile := map_option (rewrite_projectile m) (projectile u),
       dead_fish := map_option (rewrite_dead_fish m) (dead_fish u),
       creatable := map_option (rewrite_creatable m) (creatable u)\<rparr>"

definition rewrite_store :: "(int \<rightharpoonup> int) \<Rightarrow> DatFile \<Rightarrow> DatFile" where
  "rewrite_store m d =
     d\<lparr>civs := map (\<lambda>civ. civ\<lparr>units := map (map_option (rewrite_unit m)) (units civ)\<rparr>) (civs d)\<rparr>"

definition unit_list_hits :: "(int \<rightharpoonup> int) \<Rightarrow> Unit option list \<Rightarrow> nat" where
  "unit_list_hits m us =
     sum_list (map (\<lambda>u. case u of None \<Rightarrow> 0
                         | Some x \<Rightarrow> ref_hits m (iter_unit_id_refs_for_check x)) us)"

definition store_hits :: "(int \<rightharpoonup> int) \<Rightarrow> DatFile \<Rightarrow> nat" where
  "store_hits m d = sum_list (map (\<lambda>civ. unit_list_hits m (units civ)) (civs d))"

section \<open>Example records\<close>

text \<open>A unit without sub-structures, and a blank store, for the worked examples.\<close>

definition plain_unit :: "int \<Rightarrow> int \<Rightarrow> Unit" where
  "plain_unit self base =
     \<lparr>id' = self, copy_id = self, base_id = base, dead_unit_id = - 1, blood_unit_id = - 1,
      building = None, projectile = None, dead_fish = None, creatable = None,
      name = ''U''\<rparr>"

definition one_civ_store :: "Unit option list \<Rightarrow> DatFile" where
  "one_civ_store us =
     \<lparr>unit_headers = map (\<lambda>u. Some \<lparr>exists' = (if u = None then 0 else 1), task_list = None\<rparr>) us,
      civs = [\<lparr>units = us, civ_name = ''Gaia''\<rparr>],
      techs = [], effects = []\<rparr>"

definition tech_rec :: "string \<Rightarrow> int \<Rightarrow> int list \<Rightarrow> Tech" where
  "tech_rec n e rs = \<lparr>effect_id = e, required_techs = rs, tech_name = n\<rparr>"

definition effect_rec :: "string \<Rightarrow> Effect" where
  "effect_rec n = \<lparr>effect_name = n, effect_commands = []\<rparr>"

definition tech_store :: "Tech list \<Rightarrow> Effect list \<Rightarrow> DatFile" where
  "tech_store ts es = \<lparr>unit_headers = [], civs = [], techs = ts, effects = es\<rparr>"

text \<open>
  A unit with every sub-structure, whose projectile object has the attribute
  \<^verbatim>\<open>projectile_unit_id\<close> or not, and the same unit after its references into
  \<open>[2601, 2611)\<close> have been moved by 600.
\<close>

definition sample_unit :: "int option \<Rightarrow> Unit" where
  "sample_unit pid =
     \<lparr>id' = 2601, copy_id = 2601, base_id = 2605, dead_unit_id = - 1, blood_unit_id = 100,
      building = Some \<lparr>stack_unit_id = 2610, head_unit = - 1, transform_unit = 2611, pile_unit = 46,
        annexes = [Some \<lparr>annex_unit_id = 2602, misplacement = (1, 2)\<rparr>, None],
        construction_sound = 7\<rparr>,
      projectile = Some \<lparr>projectile_unit_id = pid, projectile_type = 1\<rparr>,
      dead_fish = Some \<lparr>tracking_unit = 2600, walking_graphic = 5\<rparr>,
      creatable = Some \<lparr>train_locations = [Some \<lparr>tl_unit_id = 2604, button_id = 3\<rparr>], hero_mode = 0\<rparr>,
      name = ''MODU''\<rparr>"

definition sample_unit_moved :: "int option \<Rightarrow> Unit" where
  "sample_unit_moved pid =
     \<lparr>id' = 2601, copy_id = 3201, base_id = 3205, dead_unit_id = - 1, blood_unit_id = 100,
      building = Some \<lparr>stack_unit_id = 3210, head_unit = - 1, transform_unit = 2611, pile_unit = 46,
        annexes = [Some \<lparr>annex_unit_id = 3202, misplacement = (1, 2)\<rparr>, None],
        construction_sound = 7\<rparr>,
      projectile = Some \<lparr>projectile_unit_id = pid, projectile_type = 1\<rparr>,
      dead_fish = Some \<lparr>tracking_unit = 2600, walking_graphic = 5\<rparr>,
      creatable = Some \<lparr>train_locations = [Some \<lparr>tl_unit_id = 3204, button_id = 3\<rparr>], hero_mode = 0\<rparr>,
      name = ''MODU''\<rparr>"

section \<open>What an implant should produce\<close>

text \<open>
  The header and the unit that slot \<open>src_idx\<close> of the source offers to civilization \<open>c\<close>
  of the target: the source's own record, the record of civilization 0 when the target
  has more civilizations than the source and the fallback is on, nothing otherwise.
\<close>

definition header_at :: "DatFile \<Rightarrow> int \<Rightarrow> UnitHeaders option" where
  "header_at src src_idx =
     (if src_idx < int (length (unit_headers src)) then unit_headers src ! nat src_idx
      else Some blank_unit_header)"

definition source_unit_at :: "DatFile \<Rightarrow> bool \<Rightarrow> nat \<Rightarrow> int \<Rightarrow> Unit option" where
  "source_unit_at src cef c src_idx =
     (if c < length (civs src) \<and> src_idx < int (length (units (civs src ! c))) then
        units (civs src ! c) ! nat src_idx
      else if cef \<and> length (civs src) > 0 \<and> src_idx < int (length (units (civs src ! 0))) then
        units (civs src ! 0) ! nat src_idx
      else None)"

text \<open>
  The target after the slots \<open>[T, T + K)\<close> have been written from the source slots
  \<open>[S, S + K)\<close>: inside the footprint the source's header and the relocated copy with
  its self id set to the slot, outside it the target's own record.
\<close>

definition in_footprint :: "int \<Rightarrow> int \<Rightarrow> nat \<Rightarrow> bool" where
  "in_footprint T K j = (T \<le> int j \<and> int j < T + K)"

definition implanted_store ::
  "DatFile \<Rightarrow> bool \<Rightarrow> (int \<rightharpoonup> int) \<Rightarrow> int \<Rightarrow> int \<Rightarrow> int \<Rightarrow> DatFile \<Rightarrow> DatFile" where
  "implanted_store src cef m S T K tgt =
     tgt\<lparr>unit_headers :=
           map (\<lambda>j. if in_footprint T K j then header_at src (S + (int j - T))
                    else unit_headers tgt ! j)
             [0..<length (unit_headers tgt)],
         civs :=
           map (\<lambda>c. (civs tgt ! c)
                  \<lparr>units :=
                     map (\<lambda>j. if in_footprint T K j
                              then clone_for_slot m (int j) (source_unit_at src cef c (S + (int j - T)))
                              else units (civs tgt ! c) ! j)
                       [0..<length (units (civs tgt ! c))]\<rparr>)
             [0..<length (civs tgt)]\<rparr>"

text \<open>A target slot holds a record: its header is not blank, or some civilization has a unit there.\<close>

definition slot_nonblank :: "DatFile \<Rightarrow> int \<Rightarrow> bool" where
  "slot_nonblank tgt idx =
     ((idx < int (length (unit_headers tgt)) \<and> \<not> is_blank_header (unit_headers tgt ! nat idx))
      \<or> (\<exists>civ \<in> set (civs tgt). idx < int (length (units civ)) \<and> units civ ! nat idx \<noteq> None))"

text \<open>
  The slots of the footprint that held a record before the implant, in ascending order,
  and the messages an implant of \<open>K\<close> records prints.
\<close>

definition footprint_slots :: "int \<Rightarrow> int \<Rightarrow> int list" where
  "footprint_slots T K = map (\<lambda>i. T + int i) [0..<nat K]"

definition overwritten_slots :: "DatFile \<Rightarrow> int \<Rightarrow> int \<Rightarrow> int list" where
  "overwritten_slots tgt T K = filter (slot_nonblank tgt) (footprint_slots T K)"

definition implant_messages :: "DatFile \<Rightarrow> int \<Rightarrow> int \<Rightarrow> int \<Rightarrow> bool \<Rightarrow> msg list" where
  "implant_messages tgt S T K warn =
     (if T + K > n_units tgt then [ExtendNotice (n_units tgt) (T + K)] else [])
     @ [RangeNotice S K T]
     @ (if overwritten_slots tgt T K \<noteq> [] \<and> warn
        then [OverwriteNotice (overwritten_slots tgt T K)] else [])"

text \<open>
  The range length the arguments ask for: \<open>count\<close> clamped to the records available from
  \<open>source_start\<close> when it is given, else the inclusive range up to \<open>source_end\<close>, else
  everything from \<open>source_start\<close> on.
\<close>

definition requested_count :: "int \<Rightarrow> int \<Rightarrow> int option \<Rightarrow> int option \<Rightarrow> int" where
  "requested_count n_source source_start source_end count =
     (case count of
        Some c \<Rightarrow> min c (n_source - source_start)
      | None \<Rightarrow> (case source_end of Some e \<Rightarrow> e - source_start + 1
                                    | None \<Rightarrow> n_source - source_start))"

definition range_error :: "int \<Rightarrow> int \<Rightarrow> int option \<Rightarrow> int option \<Rightarrow> bool" where
  "range_error n_source source_start source_end count =
     (source_start \<ge> n_source
      \<or> (count = None \<and> (case source_end of Some e \<Rightarrow> e < source_start \<or> e \<ge> n_source
                                            | None \<Rightarrow> False))
      \<or> requested_count n_source source_start source_end count \<le> 0)"

section \<open>What the finalization should produce\<close>

text \<open>Every unit at a slot of the index set carries the slot as its self id.\<close>

definition aligned_units :: "int list \<Rightarrow> Unit option list \<Rightarrow> Unit option list" where
  "aligned_units indices us =
     map (\<lambda>j. if int j \<in> set indices then map_option (\<lambda>u. u\<lparr>id' := int j\<rparr>) (us ! j) else us ! j)
       [0..<length us]"

definition aligned_store :: "int list \<Rightarrow> DatFile \<Rightarrow> DatFile" where
  "aligned_store indices d =
     d\<lparr>civs := map (\<lambda>civ. civ\<lparr>units := aligned_units indices (units civ)\<rparr>) (civs d)\<rparr>"

section \<open>What the consistency check should report\<close>

text \<open>
  The issues of one slot of one civilization, and the issues of the whole check: the
  civilizations in order, and for each of them the slots in the order of the index set.
\<close>

definition slot_issues :: "int set \<Rightarrow> nat \<Rightarrow> Unit option list \<Rightarrow> int \<Rightarrow> issue list" where
  "slot_issues old civ_idx us ui =
     (if ui < int (length us)
      then (case us ! nat ui of None \<Rightarrow> [] | Some u \<Rightarrow> unit_issues old civ_idx ui u)
      else [])"

definition expected_issues :: "DatFile \<Rightarrow> int list \<Rightarrow> int set \<Rightarrow> issue list" where
  "expected_issues data indices old =
     concat (map (\<lambda>(civ_idx, civ). concat (map (slot_issues old civ_idx (units civ)) indices))
               (enumerate 0 (civs data)))"

text \<open>
  What makes field \<open>p\<close> with value \<open>v\<close> an issue of the unit \<open>u\<close> stored at slot \<open>ui\<close>: it is
  the self id and differs from the slot, or it is an enumerated reference field and its
  value is a stale id.
\<close>

definition flagged :: "int set \<Rightarrow> int \<Rightarrow> Unit \<Rightarrow> field_path \<Rightarrow> int \<Rightarrow> bool" where
  "flagged old ui u p v =
     ((p = F_id \<and> v = id' u \<and> id' u \<noteq> ui)
      \<or> ((p, v) \<in> set (iter_unit_id_refs_for_check u) \<and> v \<in> old))"

definition flagged_slot :: "int set \<Rightarrow> Unit option list \<Rightarrow> int \<Rightarrow> field_path \<Rightarrow> int \<Rightarrow> bool" where
  "flagged_slot old us ui p v =
     (ui < int (length us) \<and> (\<exists>u. us ! nat ui = Some u \<and> flagged old ui u p v))"

section \<open>What a tech implant should produce\<close>

text \<open>
  The effect ids the techs of the range point to, the target as extended with copies of
  its slot 0, and the target after the implant: every referenced effect at its old index
  plus the offset, every tech of the range at its slot with its effect pointer and the
  prerequisites inside the range moved by the offset.
\<close>

definition tech_effect_ids :: "DatFile \<Rightarrow> int \<Rightarrow> int \<Rightarrow> int list" where
  "tech_effect_ids src S K = map (\<lambda>i. effect_id (techs src ! nat (S + int i))) [0..<nat K]"

definition need_effect_len :: "DatFile \<Rightarrow> int \<Rightarrow> int \<Rightarrow> int \<Rightarrow> int" where
  "need_effect_len src S T K = Max (set (map (\<lambda>eid. eid + (T - S)) (tech_effect_ids src S K))) + 1"

definition extended_effects :: "DatFile \<Rightarrow> DatFile \<Rightarrow> int \<Rightarrow> int \<Rightarrow> int \<Rightarrow> Effect list" where
  "extended_effects src tgt S T K =
     ensure_length (effects tgt) (need_effect_len src S T K) (effects tgt ! 0)"

definition extended_techs :: "DatFile \<Rightarrow> int \<Rightarrow> int \<Rightarrow> Tech list" where
  "extended_techs tgt T K = ensure_length (techs tgt) (T + K) (techs tgt ! 0)"

definition tech_implanted_store :: "DatFile \<Rightarrow> int \<Rightarrow> int \<Rightarrow> int \<Rightarrow> DatFile \<Rightarrow> DatFile" where
  "tech_implanted_store src S T K tgt =
     tgt\<lparr>effects :=
           map (\<lambda>j. if int j - (T - S) \<in> set (tech_effect_ids src S K)
                    then effects src ! nat (int j - (T - S))
                    else extended_effects src tgt S T K ! j)
             [0..<length (extended_effects src tgt S T K)],
         techs :=
           map (\<lambda>j. if in_footprint T K j
                    then shift_tech S (S + K - 1) (T - S) (techs src ! nat (S + (int j - T)))
                    else extended_techs tgt T K ! j)
             [0..<length (extended_techs tgt T K)]\<rparr>"

text \<open>
  The messages of a tech implant: the overwrite notices name every destination effect
  slot, in ascending order, and every tech slot of the footprint, each with the name the
  slot holds once the target has been extended.
\<close>

definition tech_implant_messages :: "DatFile \<Rightarrow> DatFile \<Rightarrow> int \<Rightarrow> int \<Rightarrow> int \<Rightarrow> bool \<Rightarrow> msg list" where
  "tech_implant_messages src tgt S T K warn =
     (if need_effect_len src S T K > int (length (effects tgt))
      then [EffectExtendNotice (int (length (effects tgt))) (need_effect_len src S T K)] else [])
     @ (if T + K > int (length (techs tgt))
        then [TechExtendNotice (int (length (techs tgt))) (T + K)] else [])
     @ [TechRangeNotice S K T (T - S)]
     @ (if warn
        then [EffectOverwriteNotice
                (map (\<lambda>idx. (idx, effect_name (extended_effects src tgt S T K ! nat idx)))
                   (sort (remdups (map (\<lambda>eid. eid + (T - S)) (tech_effect_ids src S K))))),
              TechOverwriteNotice
                (map (\<lambda>idx. (idx, tech_name (extended_techs tgt T K ! nat idx)))
                   (footprint_slots T K))]
        else [])"

text \<open>The conditions under which the tech implant has something to copy to every slot it names.\<close>

definition tech_implant_ready :: "DatFile \<Rightarrow> DatFile \<Rightarrow> int \<Rightarrow> int \<Rightarrow> int \<Rightarrow> bool" where
  "tech_implant_ready src tgt S T K =
     (0 \<le> S \<and> 0 \<le> T \<and> 0 < K \<and> S + K \<le> int (length (techs src))
      \<and> effects tgt \<noteq> [] \<and> techs tgt \<noteq> []
      \<and> list_all (\<lambda>eid. 0 \<le> eid \<and> eid < int (length (effects src)) \<and> 0 \<le> eid + (T - S))
           (tech_effect_ids src S K))"

section \<open>The rewriter computes the relocated record\<close>

lemma do_remap_eq: "do_remap m v = (relocate m v, hits m v)"
  by (simp add: do_remap_def relocate_def hits_def split: option.splits)

lemma hits_0_relocate: "hits m v = 0 \<Longrightarrow> relocate m v = v"
  by (simp add: hits_def relocate_def split: option.splits)

lemma remap_annexes_eq:
  "remap_annexes m xs = (map (map_option (rewrite_annex m)) xs, ref_hits m (annex_refs i xs))"
proof (induction xs arbitrary: i)
  case Nil
  show ?case by (simp add: ref_hits_def)
next
  case (Cons x xs)
  show ?case using Cons.IH [of "Suc i"]
    by (cases x) (simp_all add: do_remap_eq rewrite_annex_def hits_0_relocate ref_hits_def)
qed

lemma remap_train_locations_eq:
  "remap_train_locations m xs =
     (map (map_option (rewrite_train_location m)) xs, ref_hits m (train_location_refs i xs))"
proof (induction xs arbitrary: i)
  case Nil
  show ?case by (simp add: ref_hits_def)
next
  case (Cons x xs)
  show ?case using Cons.IH [of "Suc i"]
    by (cases x) (simp_all add: do_remap_eq rewrite_train_location_def hits_0_relocate ref_hits_def)
qed

lemma remap_top_attrs_eq:
  "remap_top_attrs m u =
     (u\<lparr>copy_id := relocate m (copy_id u), base_id := relocate m (base_id u),
        dead_unit_id := relocate m (dead_unit_id u), blood_unit_id := relocate m (blood_unit_id u)\<rparr>,
      hits m (copy_id u) + hits m (base_id u) + hits m (dead_unit_id u) + hits m (blood_unit_id u))"
  by (simp add: remap_top_attrs_def do_remap_eq hits_0_relocate Let_def)

lemma remap_building_eq:
  "remap_building m b =
     (rewrite_building m b,
      hits m (stack_unit_id b) + hits m (head_unit b) + hits m (transform_unit b)
        + hits m (pile_unit b) + ref_hits m (annex_refs 0 (annexes b)))"
  by (simp add: remap_building_def rewrite_building_def do_remap_eq hits_0_relocate Let_def
        remap_annexes_eq [where i = 0])

lemma remap_projectile_eq:
  "remap_projectile m p =
     (rewrite_projectile m p,
      (case projectile_unit_id p of None \<Rightarrow> 0 | Some v \<Rightarrow> hits m v))"
  by (cases "projectile_unit_id p")
     (simp_all add: remap_projectile_def rewrite_projectile_def do_remap_eq hits_0_relocate)

lemma remap_dead_fish_eq:
  "remap_dead_fish m d = (rewrite_dead_fish m d, hits m (tracking_unit d))"
  by (simp add: remap_dead_fish_def rewrite_dead_fish_def do_remap_eq hits_0_relocate)

lemma remap_creatable_eq:
  "remap_creatable m c =
     (rewrite_creatable m c, ref_hits m (train_location_refs 0 (train_locations c)))"
  by (simp add: remap_creatable_def rewrite_creatable_def remap_train_locations_eq [where i = 0])

lemma remap_unit_eq:
  "remap_unit_id_refs_in_unit u m =
     (rewrite_unit m u, ref_hits m (iter_unit_id_refs_for_check u))"
  by (simp add: remap_unit_id_refs_in_unit_def remap_top_attrs_eq remap_opt_def
        remap_building_eq remap_projectile_eq remap_dead_fish_eq remap_creatable_eq
        rewrite_unit_def iter_unit_id_refs_for_check_def ref_hits_def
      split: option.splits)

lemma clone_for_slot_eq:
  "clone_for_slot m t u = map_option (\<lambda>x. rewrite_unit m (x\<lparr>id' := t\<rparr>)) u"
  by (simp add: clone_for_slot_def remap_unit_eq split: option.splits)

lemma id_mapping_upto:
  "map_of (map (\<lambda>j. (S + int j, T + int j)) [0..<n]) v =
     (if S \<le> v \<and> v < S + int n then Some (v - S + T) else None)"
  by (induction n) (auto simp: map_add_def split: option.splits)

lemma id_mapping_of_eq:
  "id_mapping_of S T K v = (if S \<le> v \<and> v < S + K then Some (v - S + T) else None)"
  by (cases "0 \<le> K") (auto simp: id_mapping_of_def id_mapping_upto)

text \<open>
  C1. For every unit record and every relocation map, the rewrite replaces each
  enumerated reference field (copy_id, base_id, dead_unit_id, blood_unit_id, the four
  building fields, every annex unit_id, the projectile unit of a projectile object that
  has the attribute, the tracking unit, every train location unit_id) whose value is a
  key of the map by the mapped value, which is old + offset for the map of an implant,
  and leaves every field whose value is no key, and every other field, unchanged; a
  projectile object without the attribute is left as it is. The number it returns counts
  the fields it has replaced. The copy an implant stores is the source record with its
  self id set to the slot and this rewrite applied.
\<close>

theorem rewrite_replaces_mapped_refs:
  "remap_unit_id_refs_in_unit u m =
     (rewrite_unit m u, ref_hits m (iter_unit_id_refs_for_check u))
   \<and> clone_for_slot m t (Some u) = Some (rewrite_unit m (u\<lparr>id' := t\<rparr>))
   \<and> (\<forall>v w. m v = Some w \<longrightarrow> relocate m v = w)
   \<and> (\<forall>v. m v = None \<longrightarrow> relocate m v = v)
   \<and> (\<forall>v. S \<le> v \<and> v < S + K \<longrightarrow> relocate (id_mapping_of S T K) v = v + (T - S))
   \<and> (\<forall>v. \<not> (S \<le> v \<and> v < S + K) \<longrightarrow> relocate (id_mapping_of S T K) v = v)"
  by (simp add: remap_unit_eq clone_for_slot_eq relocate_def id_mapping_of_eq)

theorem rewrite_replaces_mapped_refs_witness:
  "remap_unit_id_refs_in_unit (sample_unit (Some 2603)) (id_mapping_of 2601 3201 10)
     = (sample_unit_moved (Some 3203), 6)
   \<and> remap_unit_id_refs_in_unit (sample_unit None) (id_mapping_of 2601 3201 10)
     = (sample_unit_moved None, 5)"
proof -
  have a: "rewrite_unit (id_mapping_of 2601 3201 10) (sample_unit (Some 2603))
             = sample_unit_moved (Some 3203)"
    and b: "rewrite_unit (id_mapping_of 2601 3201 10) (sample_unit None) = sample_unit_moved None"
    by (simp_all add: sample_unit_def sample_unit_moved_def rewrite_unit_def rewrite_building_def
          rewrite_annex_def rewrite_projectile_def rewrite_dead_fish_def rewrite_creatable_def
          rewrite_train_location_def relocate_def id_mapping_of_eq)
  have c: "ref_hits (id_mapping_of 2601 3201 10)
             (iter_unit_id_refs_for_check (sample_unit (Some 2603))) = 6"
    and d: "ref_hits (id_mapping_of 2601 3201 10)
             (iter_unit_id_refs_for_check (sample_unit None)) = 5"
    by (simp_all add: sample_unit_def iter_unit_id_refs_for_check_def ref_hits_def hits_def
          id_mapping_of_eq)
  from rewrite_replaces_mapped_refs
         [of "sample_unit (Some 2603)" "id_mapping_of 2601 3201 10", THEN conjunct1]
       rewrite_replaces_mapped_refs
         [of "sample_unit None" "id_mapping_of 2601 3201 10", THEN conjunct1]
  show ?thesis unfolding a b c d by simp
qed

section \<open>The global rewrite\<close>

lemma remap_units_eq:
  "remap_units m us = (map (map_option (rewrite_unit m)) us, unit_list_hits m us)"
proof (induction us)
  case Nil
  show ?case by (simp add: unit_list_hits_def)
next
  case (Cons x xs)
  then show ?case
    by (cases x) (simp_all add: remap_unit_eq unit_list_hits_def)
qed

lemma remap_civs_eq:
  "remap_civs m cs =
     (map (\<lambda>civ. civ\<lparr>units := map (map_option (rewrite_unit m)) (units civ)\<rparr>) cs,
      sum_list (map (\<lambda>civ. unit_list_hits m (units civ)) cs))"
  by (induction cs) (simp_all add: remap_units_eq)

lemma remap_global_eq:
  "remap_unit_copy_base_ids_global d m =
     (rewrite_store m d, store_hits m d,
      if store_hits m d \<noteq> 0 then [RemapGlobalNotice (store_hits m d)] else [])"
proof -
  have "remap_civs m (civs d) = (civs (rewrite_store m d), store_hits m d)"
    by (simp add: remap_civs_eq rewrite_store_def store_hits_def)
  moreover have "d\<lparr>civs := civs (rewrite_store m d)\<rparr> = rewrite_store m d"
    by (simp add: rewrite_store_def)
  ultimately show ?thesis
    by (simp add: remap_unit_copy_base_ids_global_def)
qed

lemma relocate_stable:
  assumes "ran m \<inter> dom m = {}"
  shows "m (relocate m v) = None"
proof (cases "m v")
  case None
  then show ?thesis by (simp add: relocate_def)
next
  case (Some w)
  then have "w \<in> ran m" by (auto simp: ran_def)
  with assms have "w \<notin> dom m" by blast
  with Some show ?thesis by (simp add: relocate_def domIff)
qed

lemma relocate_twice:
  "ran m \<inter> dom m = {} \<Longrightarrow> relocate m (relocate m v) = relocate m v"
  using relocate_stable [of m v] by (simp add: relocate_def [of m "relocate m v"])

lemma hits_relocate:
  "ran m \<inter> dom m = {} \<Longrightarrow> hits m (relocate m v) = 0"
  using relocate_stable [of m v] by (simp add: hits_def)

lemma annex_refs_rewrite:
  "annex_refs i (map (map_option (rewrite_annex m)) xs) =
     map (\<lambda>(p, v). (p, relocate m v)) (annex_refs i xs)"
proof (induction xs arbitrary: i)
  case Nil
  show ?case by simp
next
  case (Cons x xs)
  show ?case using Cons.IH [of "Suc i"]
    by (cases x) (simp_all add: rewrite_annex_def)
qed

lemma train_location_refs_rewrite:
  "train_location_refs i (map (map_option (rewrite_train_location m)) xs) =
     map (\<lambda>(p, v). (p, relocate m v)) (train_location_refs i xs)"
proof (induction xs arbitrary: i)
  case Nil
  show ?case by simp
next
  case (Cons x xs)
  show ?case using Cons.IH [of "Suc i"]
    by (cases x) (simp_all add: rewrite_train_location_def)
qed

lemma refs_rewrite_unit:
  "iter_unit_id_refs_for_check (rewrite_unit m u) =
     map (\<lambda>(p, v). (p, relocate m v)) (iter_unit_id_refs_for_check u)"
  by (simp add: iter_unit_id_refs_for_check_def rewrite_unit_def rewrite_building_def
        rewrite_projectile_def rewrite_dead_fish_def rewrite_creatable_def
        annex_refs_rewrite train_location_refs_rewrite
      split: option.splits)

lemma ref_hits_rewrite_unit:
  assumes "ran m \<inter> dom m = {}"
  shows "ref_hits m (iter_unit_id_refs_for_check (rewrite_unit m u)) = 0"
  by (simp add: refs_rewrite_unit ref_hits_def hits_relocate [OF assms] case_prod_beta o_def)

lemma rewrite_annexes_twice:
  assumes "ran m \<inter> dom m = {}"
  shows "map (map_option (rewrite_annex m)) (map (map_option (rewrite_annex m)) xs) =
         map (map_option (rewrite_annex m)) xs"
proof -
  have "map_option (rewrite_annex m) (map_option (rewrite_annex m) x) =
        map_option (rewrite_annex m) x" for x
    by (cases x) (simp_all add: rewrite_annex_def relocate_twice [OF assms])
  then show ?thesis by (induction xs) simp_all
qed

lemma rewrite_train_locations_twice:
  assumes "ran m \<inter> dom m = {}"
  shows "map (map_option (rewrite_train_location m)) (map (map_option (rewrite_train_location m)) xs) =
         map (map_option (rewrite_train_location m)) xs"
proof -
  have "map_option (rewrite_train_location m) (map_option (rewrite_train_location m) x) =
        map_option (rewrite_train_location m) x" for x
    by (cases x) (simp_all add: rewrite_train_location_def relocate_twice [OF assms])
  then show ?thesis by (induction xs) simp_all
qed

lemma rewrite_unit_twice:
  assumes "ran m \<inter> dom m = {}"
  shows "rewrite_unit m (rewrite_unit m u) = rewrite_unit m u"
proof -
  have b: "map_option (rewrite_building m) (map_option (rewrite_building m) x) =
           map_option (rewrite_building m) x" for x
    by (cases x)
       (simp_all add: rewrite_building_def relocate_twice [OF assms] rewrite_annexes_twice [OF assms]
          del: map_map)
  have p: "map_option (rewrite_projectile m) (map_option (rewrite_projectile m) x) =
           map_option (rewrite_projectile m) x" for x
  proof (cases x)
    case None
    then show ?thesis by simp
  next
    case (Some q)
    then show ?thesis
      by (cases "projectile_unit_id q")
         (simp_all add: rewrite_projectile_def relocate_twice [OF assms])
  qed
  have d: "map_option (rewrite_dead_fish m) (map_option (rewrite_dead_fish m) x) =
           map_option (rewrite_dead_fish m) x" for x
    by (cases x) (simp_all add: rewrite_dead_fish_def relocate_twice [OF assms])
  have c: "map_option (rewrite_creatable m) (map_option (rewrite_creatable m) x) =
           map_option (rewrite_creatable m) x" for x
    by (cases x)
       (simp_all add: rewrite_creatable_def rewrite_train_locations_twice [OF assms] del: map_map)
  show ?thesis
    by (simp add: rewrite_unit_def [of m "rewrite_unit m u"] relocate_twice [OF assms])
       (simp add: rewrite_unit_def relocate_twice [OF assms] b p d c)
qed

lemma rewrite_store_twice:
  assumes "ran m \<inter> dom m = {}"
  shows "rewrite_store m (rewrite_store m d) = rewrite_store m d"
proof -
  have "map_option (rewrite_unit m) (map_option (rewrite_unit m) x) =
        map_option (rewrite_unit m) x" for x
    by (cases x) (simp_all add: rewrite_unit_twice [OF assms])
  then have "map (map_option (rewrite_unit m)) (map (map_option (rewrite_unit m)) us) =
        map (map_option (rewrite_unit m)) us" for us
    by (induction us) simp_all
  then have "map (\<lambda>civ. civ\<lparr>units := map (map_option (rewrite_unit m)) (units civ)\<rparr>)
          (map (\<lambda>civ. civ\<lparr>units := map (map_option (rewrite_unit m)) (units civ)\<rparr>) cs) =
        map (\<lambda>civ. civ\<lparr>units := map (map_option (rewrite_unit m)) (units civ)\<rparr>) cs" for cs :: "Civ list"
    by (induction cs) (simp_all del: map_map)
  then show ?thesis
    by (simp add: rewrite_store_def del: map_map)
qed

lemma store_hits_rewrite_store:
  assumes "ran m \<inter> dom m = {}"
  shows "store_hits m (rewrite_store m d) = 0"
proof -
  have "(case map_option (rewrite_unit m) x of None \<Rightarrow> 0
         | Some y \<Rightarrow> ref_hits m (iter_unit_id_refs_for_check y)) = 0" for x
    by (cases x) (simp_all add: ref_hits_rewrite_unit [OF assms])
  then have "unit_list_hits m (map (map_option (rewrite_unit m)) us) = 0" for us
    by (simp add: unit_list_hits_def o_def)
  then show ?thesis
    by (simp add: store_hits_def rewrite_store_def o_def)
qed

text \<open>
  C10. For a relocation map whose values are no keys of it, the global rewrite is
  idempotent: a second run with the same map on the store the first run produced changes
  no field, reports 0 remapped references and prints nothing.
\<close>

theorem global_rewrite_idempotent:
  assumes "ran m \<inter> dom m = {}"
  shows "remap_unit_copy_base_ids_global (fst (remap_unit_copy_base_ids_global d m)) m =
           (fst (remap_unit_copy_base_ids_global d m), 0, [])"
  by (simp add: remap_global_eq rewrite_store_twice [OF assms] store_hits_rewrite_store [OF assms])

lemma id_mapping_of_disjoint:
  assumes "T + K \<le> S \<or> S + K \<le> T"
  shows "ran (id_mapping_of S T K) \<inter> dom (id_mapping_of S T K) = {}"
proof -
  have "w \<notin> dom (id_mapping_of S T K)" if "w \<in> ran (id_mapping_of S T K)" for w
  proof -
    from that obtain v where "id_mapping_of S T K v = Some w"
      by (auto simp: ran_def)
    then have "S \<le> v" "v < S + K" "w = v - S + T"
      by (auto simp: id_mapping_of_eq split: if_splits)
    with assms show ?thesis
      by (auto simp: id_mapping_of_eq domIff)
  qed
  then show ?thesis by blast
qed

theorem global_rewrite_idempotent_witness:
  "ran (id_mapping_of 1 4 2) \<inter> dom (id_mapping_of 1 4 2) = {}
   \<and> fst (remap_unit_copy_base_ids_global
            (one_civ_store [Some (plain_unit 0 2), None, Some (plain_unit 2 7)])
            (id_mapping_of 1 4 2))
       = one_civ_store [Some (plain_unit 0 5), None, Some ((plain_unit 2 7)\<lparr>copy_id := 5\<rparr>)]
   \<and> remap_unit_copy_base_ids_global
        (one_civ_store [Some (plain_unit 0 5), None, Some ((plain_unit 2 7)\<lparr>copy_id := 5\<rparr>)])
        (id_mapping_of 1 4 2)
       = (one_civ_store [Some (plain_unit 0 5), None, Some ((plain_unit 2 7)\<lparr>copy_id := 5\<rparr>)], 0, [])"
proof -
  have h: "ran (id_mapping_of 1 4 2) \<inter> dom (id_mapping_of 1 4 2) = {}"
    by (rule id_mapping_of_disjoint) simp
  have e: "fst (remap_unit_copy_base_ids_global
            (one_civ_store [Some (plain_unit 0 2), None, Some (plain_unit 2 7)])
            (id_mapping_of 1 4 2))
       = one_civ_store [Some (plain_unit 0 5), None, Some ((plain_unit 2 7)\<lparr>copy_id := 5\<rparr>)]"
    by (simp add: remap_global_eq rewrite_store_def rewrite_unit_def relocate_def
          id_mapping_of_eq one_civ_store_def plain_unit_def)
  show ?thesis
    using global_rewrite_idempotent [OF h,
        of "one_civ_store [Some (plain_unit 0 2), None, Some (plain_unit 2 7)]"] h e
    by simp
qed

section \<open>Reads and writes at slots that exist\<close>

lemma ensure_length_eq:
  "ensure_length xs n b = xs @ replicate (nat (n - int (length xs))) b"
proof (induction xs n b rule: ensure_length.induct)
  case (1 lst len blank_fill)
  show ?case
  proof (cases "int (length lst) < len")
    case True
    then have "nat (len - int (length lst)) = Suc (nat (len - int (length (lst @ [blank_fill]))))"
      by simp
    with True 1 show ?thesis
      by (subst ensure_length.simps) (simp add: replicate_app_Cons_same)
  next
    case False
    then show ?thesis
      by (subst ensure_length.simps) simp
  qed
qed

lemma py_get_nat: "0 \<le> i \<Longrightarrow> i < int (length xs) \<Longrightarrow> py_get xs i = Inr (xs ! nat i)"
  by (simp add: py_get_def py_index_def)

lemma py_set_nat: "0 \<le> i \<Longrightarrow> i < int (length xs) \<Longrightarrow> py_set xs i v = Inr (xs[nat i := v])"
  by (simp add: py_set_def py_index_def)

lemma header_for_eq: "0 \<le> si \<Longrightarrow> header_for src si = Inr (header_at src si)"
  by (simp add: header_for_def header_at_def py_get_nat)

lemma source_unit_for_eq:
  "0 \<le> si \<Longrightarrow> source_unit_for src cef c si = Inr (source_unit_at src cef c si)"
  by (simp add: source_unit_for_def source_unit_at_def py_get_nat)

lemma implant_civs_eq:
  assumes "0 \<le> si" "0 \<le> ti"
    and "\<forall>c \<in> set cs. c < length (civs tgt)"
    and "\<forall>civ \<in> set (civs tgt). ti < int (length (units civ))"
  shows "implant_civs src cef m si ti cs tgt =
     Inr (tgt\<lparr>civs :=
            map (\<lambda>c. if c \<in> set cs
                     then (civs tgt ! c)\<lparr>units := (units (civs tgt ! c))
                            [nat ti := clone_for_slot m ti (source_unit_at src cef c si)]\<rparr>
                     else civs tgt ! c)
              [0..<length (civs tgt)]\<rparr>)"
  using assms(3,4)
proof (induction cs arbitrary: tgt)
  case Nil
  have "map (\<lambda>c. civs tgt ! c) [0..<length (civs tgt)] = civs tgt"
    by (simp add: map_nth)
  then show ?case by simp
next
  case (Cons c cs)
  let ?v = "clone_for_slot m ti (source_unit_at src cef c si)"
  let ?civ' = "(civs tgt ! c)\<lparr>units := (units (civs tgt ! c))[nat ti := ?v]\<rparr>"
  let ?tgt' = "tgt\<lparr>civs := (civs tgt)[c := ?civ']\<rparr>"
  from Cons.prems have c: "c < length (civs tgt)" by simp
  with Cons.prems have len: "ti < int (length (units (civs tgt ! c)))" by simp
  have step: "implant_civs src cef m si ti (c # cs) tgt = implant_civs src cef m si ti cs ?tgt'"
    using assms(1,2) len by (simp add: source_unit_for_eq py_set_nat)
  have p1: "\<forall>c \<in> set cs. c < length (civs ?tgt')"
    using Cons.prems by simp
  have p2: "\<forall>civ \<in> set (civs ?tgt'). ti < int (length (units civ))"
  proof
    fix civ assume "civ \<in> set (civs ?tgt')"
    then have "civ = ?civ' \<or> civ \<in> set (civs tgt)"
      using set_update_subset_insert [of "civs tgt" c ?civ'] by auto
    with Cons.prems len show "ti < int (length (units civ))" by auto
  qed
  have "map (\<lambda>c'. if c' \<in> set cs
                     then (civs ?tgt' ! c')\<lparr>units := (units (civs ?tgt' ! c'))
                            [nat ti := clone_for_slot m ti (source_unit_at src cef c' si)]\<rparr>
                     else civs ?tgt' ! c')
              [0..<length (civs ?tgt')]
      = map (\<lambda>c'. if c' \<in> set (c # cs)
                     then (civs tgt ! c')\<lparr>units := (units (civs tgt ! c'))
                            [nat ti := clone_for_slot m ti (source_unit_at src cef c' si)]\<rparr>
                     else civs tgt ! c')
              [0..<length (civs tgt)]"
    using c by (auto simp: nth_list_update)
  with Cons.IH [OF p1 p2] step show ?case by simp
qed
lemma implant_slot_eq:
  assumes "0 \<le> si" "0 \<le> ti"
    and "ti < int (length (unit_headers tgt))"
    and "\<forall>civ \<in> set (civs tgt). ti < int (length (units civ))"
  shows "implant_slot src cef m si ti tgt =
     Inr (tgt\<lparr>unit_headers := (unit_headers tgt)[nat ti := header_at src si],
              civs :=
                map (\<lambda>c. (civs tgt ! c)\<lparr>units := (units (civs tgt ! c))
                            [nat ti := clone_for_slot m ti (source_unit_at src cef c si)]\<rparr>)
                  [0..<length (civs tgt)]\<rparr>)"
proof -
  let ?t = "tgt\<lparr>unit_headers := (unit_headers tgt)[nat ti := header_at src si]\<rparr>"
  have "implant_slot src cef m si ti tgt =
          implant_civs src cef m si ti [0..<length (civs ?t)] ?t"
    using assms(1-3) by (simp add: implant_slot_def header_for_eq py_set_nat)
  also have "\<dots> = Inr (?t\<lparr>civs :=
            map (\<lambda>c. if c \<in> set [0..<length (civs ?t)]
                     then (civs ?t ! c)\<lparr>units := (units (civs ?t ! c))
                            [nat ti := clone_for_slot m ti (source_unit_at src cef c si)]\<rparr>
                     else civs ?t ! c)
              [0..<length (civs ?t)]\<rparr>)"
    using assms(4) by (intro implant_civs_eq assms(1,2)) simp_all
  finally show ?thesis by simp
qed

lemma implant_slots_append:
  "implant_slots src cef m S T (xs @ ys) tgt =
     (case implant_slots src cef m S T xs tgt of
        Inl e \<Rightarrow> Inl e
      | Inr t \<Rightarrow> implant_slots src cef m S T ys t)"
  by (induction xs arbitrary: tgt) (simp_all split: sum.splits)

lemma implanted_store_lengths [simp]:
  "length (unit_headers (implanted_store src cef m S T K tgt)) = length (unit_headers tgt)"
  "length (civs (implanted_store src cef m S T K tgt)) = length (civs tgt)"
  "c < length (civs tgt) \<Longrightarrow>
     length (units (civs (implanted_store src cef m S T K tgt) ! c)) = length (units (civs tgt ! c))"
  by (simp_all add: implanted_store_def)




lemma footprint_Suc:
  assumes "0 \<le> T"
  shows "in_footprint T (1 + int k) j = (in_footprint T (int k) j \<or> j = nat (T + int k))"
  using assms by (auto simp: in_footprint_def)

lemma footprint_update:
  assumes "0 \<le> T"
  shows "(map (\<lambda>j. if in_footprint T (int k) j then f j else xs ! j) [0..<length xs])
            [nat (T + int k) := f (nat (T + int k))]
         = map (\<lambda>j. if in_footprint T (1 + int k) j then f j else xs ! j) [0..<length xs]"
proof (rule nth_equalityI)
  show "length ((map (\<lambda>j. if in_footprint T (int k) j then f j else xs ! j) [0..<length xs])
            [nat (T + int k) := f (nat (T + int k))])
      = length (map (\<lambda>j. if in_footprint T (1 + int k) j then f j else xs ! j) [0..<length xs])"
    by simp
next
  fix j
  assume "j < length ((map (\<lambda>j. if in_footprint T (int k) j then f j else xs ! j) [0..<length xs])
            [nat (T + int k) := f (nat (T + int k))])"
  then have j: "j < length xs" by simp
  show "(map (\<lambda>j. if in_footprint T (int k) j then f j else xs ! j) [0..<length xs])
            [nat (T + int k) := f (nat (T + int k))] ! j
      = map (\<lambda>j. if in_footprint T (1 + int k) j then f j else xs ! j) [0..<length xs] ! j"
  proof (cases "j = nat (T + int k)")
    case True
    then show ?thesis using j by (simp add: footprint_Suc [OF assms])
  next
    case False
    then show ?thesis using j by (simp add: footprint_Suc [OF assms])
  qed
qed


lemma implanted_store_as_update:
  "implanted_store src cef m S T K tgt =
     tgt\<lparr>unit_headers := unit_headers (implanted_store src cef m S T K tgt),
         civs := civs (implanted_store src cef m S T K tgt)\<rparr>"
  by (simp add: implanted_store_def)

lemma implanted_store_overwrite:
  "(implanted_store src cef m S T K tgt)\<lparr>unit_headers := hs, civs := cs\<rparr> =
     tgt\<lparr>unit_headers := hs, civs := cs\<rparr>"
  by (simp add: implanted_store_def)

lemma implanted_store_step:
  assumes "0 \<le> T"
  shows "(implanted_store src cef m S T (int k) tgt)
     \<lparr>unit_headers := (unit_headers (implanted_store src cef m S T (int k) tgt))
                         [nat (T + int k) := header_at src (S + int k)],
      civs :=
        map (\<lambda>c. (civs (implanted_store src cef m S T (int k) tgt) ! c)
               \<lparr>units := (units (civs (implanted_store src cef m S T (int k) tgt) ! c))
                   [nat (T + int k) :=
                      clone_for_slot m (T + int k) (source_unit_at src cef c (S + int k))]\<rparr>)
          [0..<length (civs (implanted_store src cef m S T (int k) tgt))]\<rparr>
     = implanted_store src cef m S T (1 + int k) tgt"
proof -
  let ?t = "implanted_store src cef m S T (int k) tgt"
  let ?t' = "implanted_store src cef m S T (1 + int k) tgt"
  have n: "0 \<le> T + int k" using assms by simp
  have h: "(unit_headers ?t)[nat (T + int k) := header_at src (S + int k)] = unit_headers ?t'"
    using footprint_update [OF assms, of k "\<lambda>j. header_at src (S + (int j - T))" "unit_headers tgt"]
    by (simp add: implanted_store_def n)
  have tc: "civs (implanted_store src cef m S T K tgt) ! c =
      (civs tgt ! c)\<lparr>units :=
         map (\<lambda>j. if in_footprint T K j
                  then clone_for_slot m (int j) (source_unit_at src cef c (S + (int j - T)))
                  else units (civs tgt ! c) ! j)
           [0..<length (units (civs tgt ! c))]\<rparr>" if "c < length (civs tgt)" for c K
    using that by (simp add: implanted_store_def)
  have c: "(civs ?t ! c)\<lparr>units := (units (civs ?t ! c))
              [nat (T + int k) := clone_for_slot m (T + int k) (source_unit_at src cef c (S + int k))]\<rparr>
           = civs ?t' ! c" if "c < length (civs tgt)" for c
    using footprint_update [OF assms, of k
        "\<lambda>j. clone_for_slot m (int j) (source_unit_at src cef c (S + (int j - T)))"
        "units (civs tgt ! c)"]
    by (simp add: tc [OF that] n)
  have cs: "map (\<lambda>c. (civs ?t ! c)\<lparr>units := (units (civs ?t ! c))
              [nat (T + int k) := clone_for_slot m (T + int k) (source_unit_at src cef c (S + int k))]\<rparr>)
             [0..<length (civs ?t)] = civs ?t'"
    by (rule nth_equalityI) (simp_all add: c)
  show ?thesis
    unfolding h cs implanted_store_overwrite
    by (rule implanted_store_as_update [symmetric])
qed


lemma implant_slots_eq:
  assumes "0 \<le> S" "0 \<le> T"
    and "T + int k \<le> int (length (unit_headers tgt))"
    and "\<forall>civ \<in> set (civs tgt). T + int k \<le> int (length (units civ))"
  shows "implant_slots src cef m S T [0..<k] tgt = Inr (implanted_store src cef m S T (int k) tgt)"
  using assms(3,4)
proof (induction k)
  case 0
  have nf: "in_footprint T 0 j = False" for j
    by (auto simp: in_footprint_def)
  have "implanted_store src cef m S T 0 tgt = tgt"
    by (simp add: implanted_store_def nf map_nth)
  then show ?case by simp
next
  case (Suc k)
  let ?t = "implanted_store src cef m S T (int k) tgt"
  have ih: "implant_slots src cef m S T [0..<k] tgt = Inr ?t"
  proof (rule Suc.IH)
    show "T + int k \<le> int (length (unit_headers tgt))"
      using Suc.prems(1) by simp
    show "\<forall>civ \<in> set (civs tgt). T + int k \<le> int (length (units civ))"
      using Suc.prems(2) by fastforce
  qed
  have hl: "T + int k < int (length (unit_headers ?t))"
    using Suc.prems(1) by simp
  have civlen: "\<forall>civ \<in> set (civs ?t). T + int k < int (length (units civ))"
  proof
    fix civ assume "civ \<in> set (civs ?t)"
    then obtain c where c: "c < length (civs tgt)" "civ = civs ?t ! c"
      by (auto simp: in_set_conv_nth)
    then have "length (units civ) = length (units (civs tgt ! c))" by simp
    moreover have "civs tgt ! c \<in> set (civs tgt)" using c by simp
    ultimately show "T + int k < int (length (units civ))"
      using Suc.prems(2) by fastforce
  qed
  have single: "implant_slots src cef m S T [k] t = implant_slot src cef m (S + int k) (T + int k) t" for t
    by (simp split: sum.splits)
  have a: "implant_slots src cef m S T [0..<Suc k] tgt =
          implant_slot src cef m (S + int k) (T + int k) ?t"
    unfolding upt_Suc_append [OF le0] implant_slots_append ih single by simp
  have p: "0 \<le> S + int k" "0 \<le> T + int k" using assms(1,2) by simp_all
  note b = implant_slot_eq [OF p hl civlen, of src cef m]
  show ?case
    unfolding a b implanted_store_step [OF assms(2)] by simp
qed


section \<open>The overwrite scan and the whole implant\<close>

lemma civs_nonblank_at_eq:
  "0 \<le> idx \<Longrightarrow>
     civs_nonblank_at cs idx =
       Inr (\<exists>civ \<in> set cs. idx < int (length (units civ)) \<and> units civ ! nat idx \<noteq> None)"
  by (induction cs) (auto simp: py_get_nat)

lemma slot_overwritten_eq:
  "0 \<le> idx \<Longrightarrow> idx < int (length (unit_headers tgt)) \<Longrightarrow>
     slot_overwritten tgt idx = Inr (slot_nonblank tgt idx)"
  by (auto simp: slot_overwritten_def slot_nonblank_def py_get_nat civs_nonblank_at_eq)

lemma collect_overwritten_eq:
  "\<forall>idx \<in> set idxs. 0 \<le> idx \<and> idx < int (length (unit_headers tgt)) \<Longrightarrow>
     collect_overwritten tgt idxs = Inr (filter (slot_nonblank tgt) idxs)"
  by (induction idxs) (simp_all add: slot_overwritten_eq)

lemma extend_target_lengths:
  "int (length (unit_headers (extend_target tgt n))) = max (int (length (unit_headers tgt))) n"
  "length (civs (extend_target tgt n)) = length (civs tgt)"
  "civ \<in> set (civs (extend_target tgt n)) \<Longrightarrow> n \<le> int (length (units civ))"
  by (auto simp: extend_target_def ensure_length_eq)

lemma slot_nonblank_extend:
  assumes "0 \<le> idx"
  shows "slot_nonblank (extend_target tgt n) idx = slot_nonblank tgt idx"
proof -
  have h: "(idx < int (length (unit_headers (extend_target tgt n)))
           \<and> \<not> is_blank_header (unit_headers (extend_target tgt n) ! nat idx))
       = (idx < int (length (unit_headers tgt)) \<and> \<not> is_blank_header (unit_headers tgt ! nat idx))"
    using assms
    by (auto simp: extend_target_def ensure_length_eq nth_append is_blank_header_def
          blank_unit_header_def)
  have u: "(idx < int (length (ensure_length us n None)) \<and> ensure_length us n None ! nat idx \<noteq> None)
       = (idx < int (length us) \<and> us ! nat idx \<noteq> None)" for us :: "Unit option list"
    using assms by (auto simp: ensure_length_eq nth_append)
  have c: "(\<exists>civ \<in> set (civs (extend_target tgt n)).
              idx < int (length (units civ)) \<and> units civ ! nat idx \<noteq> None)
       = (\<exists>civ \<in> set (civs tgt). idx < int (length (units civ)) \<and> units civ ! nat idx \<noteq> None)"
    unfolding extend_target_def by (simp add: u del: not_None_eq)
  show ?thesis
    unfolding slot_nonblank_def h c ..
qed

lemma footprint_slots_sorted: "sorted (footprint_slots T K)" "distinct (footprint_slots T K)"
  by (auto simp: footprint_slots_def sorted_map distinct_map inj_on_def
        intro!: sorted_wrt_mono_rel [of _ "(<)"])

lemma sort_remdups_filter_footprint:
  "sort (remdups (filter P (footprint_slots T K))) = filter P (footprint_slots T K)"
proof -
  have "distinct (filter P (footprint_slots T K))"
    using footprint_slots_sorted(2) by simp
  moreover have "sorted (filter P (footprint_slots T K))"
    using footprint_slots_sorted(1) sorted_filter [of "\<lambda>x. x" "footprint_slots T K" P] by simp
  ultimately show ?thesis
    by (simp add: distinct_remdups_id sorted_sort_id)
qed

lemma implant_units_ok:
  assumes "0 \<le> S" "0 \<le> T"
    and "resolve_count (n_units src) S e c = Inr K" "0 < K"
  shows "implant_units_from_dat src tgt S e c T warn cef =
     Inr (K,
          implanted_store src cef (id_mapping_of S T K) S T K (extend_target tgt (T + K)),
          implant_messages tgt S T K warn)"
proof -
  let ?t1 = "extend_target tgt (T + K)"
  have k: "int (nat K) = K" using assms(4) by simp
  have idxs: "\<forall>idx \<in> set (footprint_slots T K). 0 \<le> idx \<and> idx < int (length (unit_headers ?t1))"
    using assms(2,4) by (auto simp: footprint_slots_def extend_target_lengths)
  have ov: "collect_overwritten ?t1 (footprint_slots T K) = Inr (overwritten_slots tgt T K)"
  proof -
    have "filter (slot_nonblank ?t1) (footprint_slots T K) = filter (slot_nonblank tgt) (footprint_slots T K)"
      using idxs by (intro filter_cong refl) (simp add: slot_nonblank_extend)
    then show ?thesis
      by (simp add: collect_overwritten_eq [OF idxs] overwritten_slots_def)
  qed
  have sl: "implant_slots src cef (id_mapping_of S T K) S T [0..<nat K] ?t1 =
          Inr (implanted_store src cef (id_mapping_of S T K) S T (int (nat K)) ?t1)"
  proof (rule implant_slots_eq [OF assms(1,2)])
    show "T + int (nat K) \<le> int (length (unit_headers ?t1))"
      unfolding k by (simp add: extend_target_lengths)
    show "\<forall>civ \<in> set (civs ?t1). T + int (nat K) \<le> int (length (units civ))"
      unfolding k by (simp add: extend_target_lengths)
  qed
  have so: "sort (remdups (overwritten_slots tgt T K)) = overwritten_slots tgt T K"
    by (simp add: overwritten_slots_def sort_remdups_filter_footprint)
  show ?thesis
    using assms(3,4)
    by (simp add: implant_units_from_dat_def Let_def ov [unfolded footprint_slots_def] sl [unfolded k]
          so implant_messages_def)
qed


lemma resolve_count_eq:
  "resolve_count n S e c =
     (if S \<ge> n \<or> (c = None \<and> (case e of Some x \<Rightarrow> x < S \<or> x \<ge> n | None \<Rightarrow> False))
      then Inl ValueError else Inr (requested_count n S e c))"
  by (simp add: resolve_count_def requested_count_def split: option.splits)

lemma implant_units_cases:
  assumes "0 \<le> S" "0 \<le> T"
  shows "implant_units_from_dat src tgt S e c T warn cef =
     (if range_error (n_units src) S e c then Inl (ValueError, tgt, [])
      else Inr (requested_count (n_units src) S e c,
                implanted_store src cef
                  (id_mapping_of S T (requested_count (n_units src) S e c)) S T
                  (requested_count (n_units src) S e c)
                  (extend_target tgt (T + requested_count (n_units src) S e c)),
                implant_messages tgt S T (requested_count (n_units src) S e c) warn))"
proof (cases "range_error (n_units src) S e c")
  case True
  then show ?thesis
    by (auto simp: implant_units_from_dat_def resolve_count_eq range_error_def)
next
  case False
  then have "resolve_count (n_units src) S e c = Inr (requested_count (n_units src) S e c)"
    and "0 < requested_count (n_units src) S e c"
    by (auto simp: resolve_count_eq range_error_def)
  from implant_units_ok [OF assms this] False show ?thesis by simp
qed

lemmas implant_eval =
  implanted_store_def extend_target_def ensure_length_eq in_footprint_def header_at_def
  source_unit_at_def clone_for_slot_eq rewrite_unit_def relocate_def id_mapping_of_eq
  one_civ_store_def plain_unit_def implant_messages_def overwritten_slots_def
  footprint_slots_def slot_nonblank_def n_units_def requested_count_def range_error_def
  is_blank_header_def blank_unit_header_def eval_nat_numeral

lemma example_count_given:
  "implant_units_from_dat (one_civ_store [Some (plain_unit 0 0), Some (plain_unit 1 1)])
       (one_civ_store []) 1 (Some 0) (Some 1) 0 True True
     = Inr (1, one_civ_store [Some (plain_unit 0 0)], [ExtendNotice 0 1, RangeNotice 1 1 0])"
  by (simp add: implant_units_cases implant_eval)

lemma example_overwrite:
  "implant_units_from_dat
       (one_civ_store [Some (plain_unit 0 0), Some (plain_unit 1 2), Some (plain_unit 2 7)])
       (one_civ_store [Some (plain_unit 0 2), None, None, None, Some (plain_unit 4 4)])
       1 None (Some 9) 4 True True
     = Inr (2,
            one_civ_store [Some (plain_unit 0 2), None, None, None,
                           Some (plain_unit 4 5), Some (plain_unit 5 7)],
            [ExtendNotice 5 6, RangeNotice 1 2 4, OverwriteNotice [4]])"
  by (simp add: implant_units_cases implant_eval)

text \<open>
  C5, as amended. For slot numbers that are not negative, the unit implant fails with
  the range error, before it has changed the target or printed anything, exactly when
  \<open>source_start\<close> is at or beyond the source length, or \<open>count\<close> is not given and
  \<open>source_end\<close> is below \<open>source_start\<close> or at or beyond the source length, or the
  resulting count is not positive; in every other case it completes, returns the count
  and has written the footprint.
\<close>

theorem implant_fails_exactly_on_range_error:
  assumes "0 \<le> S" "0 \<le> T"
  shows "implant_units_from_dat src tgt S e c T warn cef =
     (if range_error (n_units src) S e c then Inl (ValueError, tgt, [])
      else Inr (requested_count (n_units src) S e c,
                implanted_store src cef
                  (id_mapping_of S T (requested_count (n_units src) S e c)) S T
                  (requested_count (n_units src) S e c)
                  (extend_target tgt (T + requested_count (n_units src) S e c)),
                implant_messages tgt S T (requested_count (n_units src) S e c) warn))"
  by (rule implant_units_cases [OF assms])

theorem implant_fails_exactly_on_range_error_witness:
  "(0::int) \<le> 5 \<and> (0::int) \<le> 0
   \<and> implant_units_from_dat (one_civ_store [Some (plain_unit 0 0), Some (plain_unit 1 1)])
         (one_civ_store []) 5 None None 0 True True
       = Inl (ValueError, one_civ_store [], [])
   \<and> implant_units_from_dat (one_civ_store [Some (plain_unit 0 0), Some (plain_unit 1 1)])
         (one_civ_store []) 0 (Some 1) None 0 True True
       = Inr (2, one_civ_store [Some (plain_unit 0 0), Some (plain_unit 1 1)],
              [ExtendNotice 0 2, RangeNotice 0 2 0])"
  using implant_fails_exactly_on_range_error
          [of 5 0 "one_civ_store [Some (plain_unit 0 0), Some (plain_unit 1 1)]"
              "one_civ_store []" None None True True]
        implant_fails_exactly_on_range_error
          [of 0 0 "one_civ_store [Some (plain_unit 0 0), Some (plain_unit 1 1)]"
              "one_civ_store []" "Some 1" None True True]
  by (simp add: implant_eval)

text \<open>
  The claim as stated fails when both selectors are given: with \<open>source_end = 0\<close> below
  \<open>source_start = 1\<close> and \<open>count = 1\<close> the implant completes.
\<close>

theorem implant_end_below_start_completes:
  "(0::int) < 1
   \<and> implant_units_from_dat (one_civ_store [Some (plain_unit 0 0), Some (plain_unit 1 1)])
         (one_civ_store []) 1 (Some 0) (Some 1) 0 True True
       = Inr (1, one_civ_store [Some (plain_unit 0 0)], [ExtendNotice 0 1, RangeNotice 1 1 0])"
  by (simp add: example_count_given)

text \<open>
  C6. For slot numbers that are not negative and a positive \<open>count\<close>: when \<open>count\<close> is given, \<open>source_end\<close> is not looked at, and the implant count is
  \<open>min count (source_length - source_start)\<close>: a count larger than the records available
  from \<open>source_start\<close> is clamped, and the implant completes and writes that many slots.
\<close>

theorem count_wins_and_clamps:
  assumes "0 \<le> S" "0 \<le> T" "S < n_units src" "0 < k"
  shows "resolve_count (n_units src) S e (Some k) = Inr (min k (n_units src - S))
       \<and> implant_units_from_dat src tgt S e (Some k) T warn cef =
           Inr (min k (n_units src - S),
                implanted_store src cef (id_mapping_of S T (min k (n_units src - S))) S T
                  (min k (n_units src - S)) (extend_target tgt (T + min k (n_units src - S))),
                implant_messages tgt S T (min k (n_units src - S)) warn)"
  using assms(3,4)
  by (simp add: implant_units_cases [OF assms(1,2)] resolve_count_eq range_error_def
        requested_count_def)

theorem count_wins_and_clamps_witness:
  "(0::int) \<le> 1 \<and> (0::int) \<le> 4
   \<and> 1 < n_units (one_civ_store [Some (plain_unit 0 0), Some (plain_unit 1 2), Some (plain_unit 2 7)])
   \<and> (0::int) < 9
   \<and> implant_units_from_dat
         (one_civ_store [Some (plain_unit 0 0), Some (plain_unit 1 2), Some (plain_unit 2 7)])
         (one_civ_store [Some (plain_unit 0 2), None, None, None, Some (plain_unit 4 4)])
         1 (Some 0) (Some 9) 4 True True
       = Inr (2,
              one_civ_store [Some (plain_unit 0 2), None, None, None,
                             Some (plain_unit 4 5), Some (plain_unit 5 7)],
              [ExtendNotice 5 6, RangeNotice 1 2 4, OverwriteNotice [4]])"
  using count_wins_and_clamps
          [of 1 4 "one_civ_store [Some (plain_unit 0 0), Some (plain_unit 1 2), Some (plain_unit 2 7)]"
              9 "Some 0"
              "one_civ_store [Some (plain_unit 0 2), None, None, None, Some (plain_unit 4 4)]"
              True True]
  by (simp add: implant_eval)


section \<open>Slot by slot: what the target holds after an implant\<close>

lemma implant_units_result:
  assumes "0 \<le> S" "0 \<le> T"
    and "implant_units_from_dat src tgt S e c T warn cef = Inr (K, tgt', out)"
  shows "0 < K"
    and "K = requested_count (n_units src) S e c"
    and "tgt' = implanted_store src cef (id_mapping_of S T K) S T K (extend_target tgt (T + K))"
    and "out = implant_messages tgt S T K warn"
  using assms(3) unfolding implant_units_cases [OF assms(1,2)]
  by (auto simp: range_error_def split: if_splits)

lemma extend_target_frame:
  "techs (extend_target tgt n) = techs tgt"
  "effects (extend_target tgt n) = effects tgt"
  "length (civs (extend_target tgt n)) = length (civs tgt)"
  "ci < length (civs tgt) \<Longrightarrow> civ_name (civs (extend_target tgt n) ! ci) = civ_name (civs tgt ! ci)"
  "ci < length (civs tgt) \<Longrightarrow>
     units (civs (extend_target tgt n) ! ci) =
       units (civs tgt ! ci) @ replicate (nat (n - int (length (units (civs tgt ! ci))))) None"
  "unit_headers (extend_target tgt n) =
     unit_headers tgt @ replicate (nat (n - int (length (unit_headers tgt)))) (Some blank_unit_header)"
  by (simp_all add: extend_target_def ensure_length_eq)

lemma implanted_store_frame:
  "techs (implanted_store src cef m S T K tgt) = techs tgt"
  "effects (implanted_store src cef m S T K tgt) = effects tgt"
  "ci < length (civs tgt) \<Longrightarrow>
     civ_name (civs (implanted_store src cef m S T K tgt) ! ci) = civ_name (civs tgt ! ci)"
  "j < length (unit_headers tgt) \<Longrightarrow>
     unit_headers (implanted_store src cef m S T K tgt) ! j =
       (if in_footprint T K j then header_at src (S + (int j - T)) else unit_headers tgt ! j)"
  "ci < length (civs tgt) \<Longrightarrow> j < length (units (civs tgt ! ci)) \<Longrightarrow>
     units (civs (implanted_store src cef m S T K tgt) ! ci) ! j =
       (if in_footprint T K j
        then clone_for_slot m (int j) (source_unit_at src cef ci (S + (int j - T)))
        else units (civs tgt ! ci) ! j)"
  by (simp_all add: implanted_store_def)

text \<open>
  C4. For slot numbers that are not negative, an implant with target start \<open>T\<close> and count \<open>K\<close> leaves every slot that the target
  had outside \<open>[T, T + K)\<close> as it was, in the unit headers and in the units of every
  civilization, and leaves the civilizations' other data, the techs and the effects
  alone. The source store is an argument that is only read: the result holds the target
  alone, and what is stored in the target are values copied from the source.
\<close>

theorem implant_footprint_containment:
  assumes "0 \<le> S" "0 \<le> T"
    and "implant_units_from_dat src tgt S e c T warn cef = Inr (K, tgt', out)"
  shows "techs tgt' = techs tgt \<and> effects tgt' = effects tgt
       \<and> length (civs tgt') = length (civs tgt)
       \<and> (\<forall>j < length (unit_headers tgt). \<not> in_footprint T K j \<longrightarrow>
             j < length (unit_headers tgt') \<and> unit_headers tgt' ! j = unit_headers tgt ! j)
       \<and> (\<forall>ci < length (civs tgt).
             civ_name (civs tgt' ! ci) = civ_name (civs tgt ! ci)
             \<and> (\<forall>j < length (units (civs tgt ! ci)). \<not> in_footprint T K j \<longrightarrow>
                   j < length (units (civs tgt' ! ci))
                   \<and> units (civs tgt' ! ci) ! j = units (civs tgt ! ci) ! j))"
proof -
  note r = implant_units_result [OF assms]
  let ?x = "extend_target tgt (T + K)"
  have t: "tgt' = implanted_store src cef (id_mapping_of S T K) S T K ?x" by (rule r(3))
  have h: "j < length (unit_headers tgt') \<and> unit_headers tgt' ! j = unit_headers tgt ! j"
    if "j < length (unit_headers tgt)" "\<not> in_footprint T K j" for j
  proof -
    have "j < length (unit_headers ?x)" using that(1) by (simp add: extend_target_frame)
    then show ?thesis
      using that by (simp add: t implanted_store_frame) (simp add: extend_target_frame nth_append)
  qed
  have u: "j < length (units (civs tgt' ! ci)) \<and> units (civs tgt' ! ci) ! j = units (civs tgt ! ci) ! j"
    if "ci < length (civs tgt)" "j < length (units (civs tgt ! ci))" "\<not> in_footprint T K j" for ci j
  proof -
    have ci: "ci < length (civs ?x)" using that(1) by (simp add: extend_target_frame)
    have "j < length (units (civs ?x ! ci))" using that(1,2) by (simp add: extend_target_frame)
    then show ?thesis
      using that ci by (simp add: t implanted_store_frame) (simp add: extend_target_frame nth_append)
  qed
  have n: "civ_name (civs tgt' ! ci) = civ_name (civs tgt ! ci)" if "ci < length (civs tgt)" for ci
    using that by (simp add: t implanted_store_frame extend_target_frame)
  show ?thesis
    using h u n by (simp add: t implanted_store_frame extend_target_frame)
qed


theorem implant_footprint_containment_witness:
  "(0::int) \<le> 1 \<and> (0::int) \<le> 4
   \<and> implant_units_from_dat
         (one_civ_store [Some (plain_unit 0 0), Some (plain_unit 1 2), Some (plain_unit 2 7)])
         (one_civ_store [Some (plain_unit 0 2), None, None, None, Some (plain_unit 4 4)])
         1 None (Some 9) 4 True True
       = Inr (2,
              one_civ_store [Some (plain_unit 0 2), None, None, None,
                             Some (plain_unit 4 5), Some (plain_unit 5 7)],
              [ExtendNotice 5 6, RangeNotice 1 2 4, OverwriteNotice [4]])
   \<and> \<not> in_footprint 4 2 0
   \<and> units (civs (one_civ_store [Some (plain_unit 0 2), None, None, None,
                                  Some (plain_unit 4 5), Some (plain_unit 5 7)]) ! 0) ! 0
       = units (civs (one_civ_store [Some (plain_unit 0 2), None, None, None,
                                     Some (plain_unit 4 4)]) ! 0) ! 0"
proof -
  let ?tgt = "one_civ_store [Some (plain_unit 0 2), None, None, None, Some (plain_unit 4 4)]"
  let ?res = "one_civ_store [Some (plain_unit 0 2), None, None, None,
                             Some (plain_unit 4 5), Some (plain_unit 5 7)]"
  have a: "(0::int) \<le> 1" "(0::int) \<le> 4" by simp_all
  have nf: "\<not> in_footprint 4 2 0" by (simp add: in_footprint_def)
  from implant_footprint_containment [OF a example_overwrite]
  have "\<forall>ci < length (civs ?tgt). \<forall>j < length (units (civs ?tgt ! ci)).
          \<not> in_footprint 4 2 j \<longrightarrow> units (civs ?res ! ci) ! j = units (civs ?tgt ! ci) ! j"
    by blast
  then have "units (civs ?res ! 0) ! 0 = units (civs ?tgt ! 0) ! 0"
    using nf by (simp add: one_civ_store_def)
  with a nf example_overwrite show ?thesis by simp
qed

section \<open>The finalization pass\<close>

lemma aligned_units_length [simp]: "length (aligned_units is us) = length us"
  by (simp add: aligned_units_def)

lemma aligned_units_nth:
  "j < length us \<Longrightarrow>
     aligned_units is us ! j =
       (if int j \<in> set is then map_option (\<lambda>u. u\<lparr>id' := int j\<rparr>) (us ! j) else us ! j)"
  by (simp add: aligned_units_def)

lemma aligned_units_skip:
  assumes "0 \<le> i" "int (length us) \<le> i \<or> us ! nat i = None \<or> (\<exists>u. us ! nat i = Some u \<and> id' u = i)"
  shows "aligned_units (i # is) us = aligned_units is us"
proof (rule nth_equalityI)
  show "length (aligned_units (i # is) us) = length (aligned_units is us)" by simp
next
  fix j assume "j < length (aligned_units (i # is) us)"
  then have j: "j < length us" by simp
  show "aligned_units (i # is) us ! j = aligned_units is us ! j"
  proof (cases "int j = i")
    case True
    then have "nat i = j" by simp
    with assms(2) j True show ?thesis
      by (auto simp: aligned_units_nth)
  next
    case False
    with j show ?thesis by (simp add: aligned_units_nth)
  qed
qed

lemma aligned_units_fix:
  assumes "0 \<le> i" "i < int (length us)" "us ! nat i = Some u"
  shows "aligned_units is (us[nat i := Some (u\<lparr>id' := i\<rparr>)]) = aligned_units (i # is) us"
proof (rule nth_equalityI)
  show "length (aligned_units is (us[nat i := Some (u\<lparr>id' := i\<rparr>)])) = length (aligned_units (i # is) us)"
    by simp
next
  fix j assume "j < length (aligned_units is (us[nat i := Some (u\<lparr>id' := i\<rparr>)]))"
  then have j: "j < length us" by simp
  show "aligned_units is (us[nat i := Some (u\<lparr>id' := i\<rparr>)]) ! j = aligned_units (i # is) us ! j"
  proof (cases "int j = i")
    case True
    then have "nat i = j" by simp
    with assms j True show ?thesis
      by (auto simp: aligned_units_nth)
  next
    case False
    then have "nat i \<noteq> j" using assms(1) by auto
    with j False show ?thesis by (simp add: aligned_units_nth)
  qed
qed

lemma fix_self_ids_in_units_eq:
  "\<forall>i \<in> set is. 0 \<le> i \<Longrightarrow>
     \<exists>n'. fix_self_ids_in_units is us n = Inr (aligned_units is us, n')"
proof (induction "is" arbitrary: us n)
  case Nil
  have "aligned_units [] us = us"
    by (simp add: aligned_units_def map_nth)
  then show ?case by simp
next
  case (Cons i "is")
  then have i: "0 \<le> i" and rest: "\<forall>i \<in> set is. 0 \<le> i" by simp_all
  show ?case
  proof (cases "i < int (length us)")
    case False
    then have "aligned_units (i # is) us = aligned_units is us"
      using i by (intro aligned_units_skip) auto
    with False Cons.IH [OF rest, of us n] show ?thesis by simp
  next
    case True
    show ?thesis
    proof (cases "us ! nat i")
      case None
      then have "aligned_units (i # is) us = aligned_units is us"
        using i by (intro aligned_units_skip) auto
      with True None i Cons.IH [OF rest, of us n] show ?thesis
        by (simp add: py_get_nat)
    next
      case (Some u)
      show ?thesis
      proof (cases "id' u = i")
        case same: True
        with Some have "aligned_units (i # is) us = aligned_units is us"
          using i by (intro aligned_units_skip) auto
        with True Some same i Cons.IH [OF rest, of us n] show ?thesis
          by (simp add: py_get_nat)
      next
        case False
        from True Some False i
          Cons.IH [OF rest, of "us[nat i := Some (u\<lparr>id' := i\<rparr>)]" "n + 1"]
          aligned_units_fix [OF i True Some, of "is"]
        show ?thesis
          by (simp add: py_get_nat py_set_nat)
      qed
    qed
  qed
qed

lemma fix_self_ids_in_civs_eq:
  "\<forall>i \<in> set is. 0 \<le> i \<Longrightarrow>
     \<exists>n'. fix_self_ids_in_civs is cs n =
            Inr (map (\<lambda>civ. civ\<lparr>units := aligned_units is (units civ)\<rparr>) cs, n')"
proof (induction cs arbitrary: n)
  case Nil
  show ?case by simp
next
  case (Cons civ cs)
  from fix_self_ids_in_units_eq [OF Cons.prems, of "units civ" n]
  obtain n1 where a: "fix_self_ids_in_units is (units civ) n = Inr (aligned_units is (units civ), n1)"
    by blast
  from Cons.IH [OF Cons.prems, of n1]
  obtain n2 where b: "fix_self_ids_in_civs is cs n1 =
      Inr (map (\<lambda>civ. civ\<lparr>units := aligned_units is (units civ)\<rparr>) cs, n2)"
    by blast
  show ?case by (simp add: a b)
qed

lemma finalize_eq:
  assumes "\<forall>i \<in> set is. 0 \<le> i"
  shows "\<exists>ns out. finalize_unit_id_migration d m is =
           Inr (rewrite_store m (aligned_store is d), ns, out)"
proof -
  from fix_self_ids_in_civs_eq [OF assms, of "civs d" 0]
  obtain n where "fix_self_ids_in_civs is (civs d) 0 =
      Inr (map (\<lambda>civ. civ\<lparr>units := aligned_units is (units civ)\<rparr>) (civs d), n)"
    by blast
  then show ?thesis
    by (simp add: finalize_unit_id_migration_def fix_implanted_unit_self_ids_def aligned_store_def
          remap_global_eq)
qed


lemma id'_rewrite_unit [simp]: "id' (rewrite_unit m u) = id' u"
  by (simp add: rewrite_unit_def)

lemma refs_id'_update [simp]:
  "iter_unit_id_refs_for_check (u\<lparr>id' := x\<rparr>) = iter_unit_id_refs_for_check u"
  by (simp add: iter_unit_id_refs_for_check_def)

lemma refs_rewrite_unit_mem:
  "(p, v) \<in> set (iter_unit_id_refs_for_check u) \<Longrightarrow>
     (p, relocate m v) \<in> set (iter_unit_id_refs_for_check (rewrite_unit m u))"
  by (force simp: refs_rewrite_unit)

lemma rewrite_store_nth:
  "ci < length (civs d) \<Longrightarrow> j < length (units (civs d ! ci)) \<Longrightarrow>
     units (civs (rewrite_store m d) ! ci) ! j = map_option (rewrite_unit m) (units (civs d ! ci) ! j)"
  by (simp add: rewrite_store_def)

lemma rewrite_store_lengths [simp]:
  "length (civs (rewrite_store m d)) = length (civs d)"
  "ci < length (civs d) \<Longrightarrow>
     length (units (civs (rewrite_store m d) ! ci)) = length (units (civs d ! ci))"
  by (simp_all add: rewrite_store_def)

lemma aligned_store_lengths [simp]:
  "length (civs (aligned_store is d)) = length (civs d)"
  "ci < length (civs d) \<Longrightarrow>
     length (units (civs (aligned_store is d) ! ci)) = length (units (civs d ! ci))"
  by (simp_all add: aligned_store_def)

lemma aligned_store_nth:
  "ci < length (civs d) \<Longrightarrow> j < length (units (civs d ! ci)) \<Longrightarrow>
     units (civs (aligned_store is d) ! ci) ! j =
       (if int j \<in> set is then map_option (\<lambda>u. u\<lparr>id' := int j\<rparr>) (units (civs d ! ci) ! j)
        else units (civs d ! ci) ! j)"
  by (simp add: aligned_store_def aligned_units_nth)

lemma implanted_slot_in_range:
  assumes "0 \<le> T" "in_footprint T K j" "ci < length (civs tgt)"
  shows "j < length (units (civs (extend_target tgt (T + K)) ! ci))"
  using assms by (auto simp: in_footprint_def extend_target_frame)

lemma implanted_unit_at:
  assumes "0 \<le> T" "in_footprint T K j" "ci < length (civs tgt)"
  shows "units (civs (implanted_store src cef m S T K (extend_target tgt (T + K))) ! ci) ! j =
           clone_for_slot m (int j) (source_unit_at src cef ci (S + (int j - T)))"
  using assms implanted_slot_in_range [OF assms]
  by (simp add: implanted_store_frame extend_target_frame(3))

text \<open>
  C2. For slot numbers that are not negative: after an implant of count \<open>K\<close> at target start \<open>T\<close>, every unit stored at a slot
  of \<open>[T, T + K)\<close> carries the slot as its self id, in every civilization; and the
  finalization pass over any set of slots completes and keeps it so.
\<close>

theorem implanted_self_ids_match_slots:
  assumes "0 \<le> S" "0 \<le> T"
    and "implant_units_from_dat src tgt S e c T warn cef = Inr (K, tgt1, out)"
    and "\<forall>i \<in> set indices. 0 \<le> i"
  shows "(\<forall>ci < length (civs tgt1). \<forall>j. in_footprint T K j \<longrightarrow>
            j < length (units (civs tgt1 ! ci))
            \<and> (\<forall>u. units (civs tgt1 ! ci) ! j = Some u \<longrightarrow> id' u = int j))
       \<and> map_sum id fst (finalize_unit_id_migration tgt1 m indices) =
            Inr (rewrite_store m (aligned_store indices tgt1))
       \<and> (\<forall>ci < length (civs tgt1). \<forall>j. in_footprint T K j \<longrightarrow>
            j < length (units (civs (rewrite_store m (aligned_store indices tgt1)) ! ci))
            \<and> (\<forall>u. units (civs (rewrite_store m (aligned_store indices tgt1)) ! ci) ! j = Some u
                  \<longrightarrow> id' u = int j))"
proof -
  note r = implant_units_result [OF assms(1-3)]
  let ?x = "extend_target tgt (T + K)"
  have len: "length (civs tgt1) = length (civs tgt)"
    by (simp add: r(3) extend_target_frame)
  have a: "j < length (units (civs tgt1 ! ci))
           \<and> (\<forall>u. units (civs tgt1 ! ci) ! j = Some u \<longrightarrow> id' u = int j)"
    if "ci < length (civs tgt1)" "in_footprint T K j" for ci j
  proof -
    from that len have ci: "ci < length (civs tgt)" by simp
    have "j < length (units (civs ?x ! ci))"
      by (rule implanted_slot_in_range [OF assms(2) that(2) ci])
    moreover have "ci < length (civs ?x)" using ci by (simp add: extend_target_frame)
    ultimately have "j < length (units (civs tgt1 ! ci))"
      by (simp add: r(3))
    moreover have "units (civs tgt1 ! ci) ! j =
        clone_for_slot (id_mapping_of S T K) (int j) (source_unit_at src cef ci (S + (int j - T)))"
      unfolding r(3) by (rule implanted_unit_at [OF assms(2) that(2) ci])
    ultimately show ?thesis
      by (auto simp: clone_for_slot_eq)
  qed
  have b: "map_sum id fst (finalize_unit_id_migration tgt1 m indices) =
            Inr (rewrite_store m (aligned_store indices tgt1))"
    using finalize_eq [OF assms(4), of tgt1 m] by auto
  have c: "j < length (units (civs (rewrite_store m (aligned_store indices tgt1)) ! ci))
            \<and> (\<forall>u. units (civs (rewrite_store m (aligned_store indices tgt1)) ! ci) ! j = Some u
                  \<longrightarrow> id' u = int j)"
    if "ci < length (civs tgt1)" "in_footprint T K j" for ci j
  proof -
    from a [OF that] have j: "j < length (units (civs tgt1 ! ci))"
      and i: "\<forall>u. units (civs tgt1 ! ci) ! j = Some u \<longrightarrow> id' u = int j" by simp_all
    show ?thesis
      using that(1) j i
      by (cases "units (civs tgt1 ! ci) ! j") (auto simp: rewrite_store_nth aligned_store_nth)
  qed
  from a b c show ?thesis by blast
qed


theorem implanted_self_ids_match_slots_witness:
  "(0::int) \<le> 1 \<and> (0::int) \<le> 4
   \<and> implant_units_from_dat
         (one_civ_store [Some (plain_unit 0 0), Some (plain_unit 1 2), Some (plain_unit 2 7)])
         (one_civ_store [Some (plain_unit 0 2), None, None, None, Some (plain_unit 4 4)])
         1 None (Some 9) 4 True True
       = Inr (2,
              one_civ_store [Some (plain_unit 0 2), None, None, None,
                             Some (plain_unit 4 5), Some (plain_unit 5 7)],
              [ExtendNotice 5 6, RangeNotice 1 2 4, OverwriteNotice [4]])
   \<and> (0::int) \<le> 5
   \<and> in_footprint 4 2 5
   \<and> map_sum id fst
        (finalize_unit_id_migration
           (one_civ_store [Some (plain_unit 0 2), None, None, None,
                           Some (plain_unit 4 5), Some (plain_unit 5 7)])
           (id_mapping_of 1 4 2) [4, 5])
       = Inr (one_civ_store [Some (plain_unit 0 5), None, None, None,
                             Some (plain_unit 4 5), Some (plain_unit 5 7)])
   \<and> map_option id'
        (units (civs (one_civ_store [Some (plain_unit 0 5), None, None, None,
                                     Some (plain_unit 4 5), Some (plain_unit 5 7)]) ! 0) ! 5)
       = Some 5"
proof -
  let ?res = "one_civ_store [Some (plain_unit 0 2), None, None, None,
                             Some (plain_unit 4 5), Some (plain_unit 5 7)]"
  let ?fin = "one_civ_store [Some (plain_unit 0 5), None, None, None,
                             Some (plain_unit 4 5), Some (plain_unit 5 7)]"
  have a: "(0::int) \<le> 1" "(0::int) \<le> 4" by simp_all
  have i: "\<forall>i \<in> set [4, 5 :: int]. 0 \<le> i" by simp
  have f: "in_footprint 4 2 5" by (simp add: in_footprint_def)
  have e: "rewrite_store (id_mapping_of 1 4 2) (aligned_store [4, 5] ?res) = ?fin"
    by (simp add: rewrite_store_def aligned_store_def aligned_units_def rewrite_unit_def
          relocate_def id_mapping_of_eq one_civ_store_def plain_unit_def eval_nat_numeral)
  note w = implanted_self_ids_match_slots [OF a example_overwrite i, of "id_mapping_of 1 4 2"]
  note w2 = w [THEN conjunct2, THEN conjunct1, unfolded e]
  note w3 = w [THEN conjunct2, THEN conjunct2, rule_format, of 0 5, unfolded e]
  have l: "0 < length (civs ?res)" by (simp add: one_civ_store_def)
  from w3 [OF l f] have "\<forall>u. units (civs ?fin ! 0) ! 5 = Some u \<longrightarrow> id' u = 5"
    by simp
  then have "map_option id' (units (civs ?fin ! 0) ! 5) = Some 5"
    by (simp add: one_civ_store_def)
  with w2 a i f example_overwrite show ?thesis
    by simp
qed
text \<open>
  C3. For slot numbers that are not negative: a record that an implant does not relocate the reference of keeps the old ID
  through the implant and gets the new one from the global pass. First, a record of the
  target outside the footprint \<open>[T, T + K)\<close> whose reference field \<open>p\<close> holds \<open>old\<close> is
  the same record after the implant, and after the global pass with a map that sends
  \<open>old\<close> to \<open>new\<close> its field \<open>p\<close> holds \<open>new\<close>. Second, a record that the implant itself
  writes (such as a single-slot override) and whose field \<open>p\<close> holds an \<open>old\<close> outside the
  implant's own source range \<open>[S, S + K)\<close> still holds \<open>old\<close> after the scoped rewrite, and
  \<open>new\<close> after the global pass.
\<close>

theorem global_pass_corrects_outside_references:
  assumes "0 \<le> S" "0 \<le> T"
    and "implant_units_from_dat src tgt S e c T warn cef = Inr (K, tgt1, out)"
    and "m old = Some new"
    and "ci < length (civs tgt)"
    and "(p, old) \<in> set (iter_unit_id_refs_for_check u)"
  shows "(j < length (units (civs tgt ! ci)) \<and> \<not> in_footprint T K j
            \<and> units (civs tgt ! ci) ! j = Some u
          \<longrightarrow> units (civs tgt1 ! ci) ! j = Some u
              \<and> units (civs (fst (remap_unit_copy_base_ids_global tgt1 m)) ! ci) ! j
                  = Some (rewrite_unit m u)
              \<and> (p, new) \<in> set (iter_unit_id_refs_for_check (rewrite_unit m u)))
       \<and> (in_footprint T K j \<and> source_unit_at src cef ci (S + (int j - T)) = Some u
            \<and> \<not> (S \<le> old \<and> old < S + K)
          \<longrightarrow> units (civs tgt1 ! ci) ! j
                  = Some (rewrite_unit (id_mapping_of S T K) (u\<lparr>id' := int j\<rparr>))
              \<and> (p, old) \<in> set (iter_unit_id_refs_for_check
                                   (rewrite_unit (id_mapping_of S T K) (u\<lparr>id' := int j\<rparr>)))
              \<and> units (civs (fst (remap_unit_copy_base_ids_global tgt1 m)) ! ci) ! j
                  = Some (rewrite_unit m (rewrite_unit (id_mapping_of S T K) (u\<lparr>id' := int j\<rparr>)))
              \<and> (p, new) \<in> set (iter_unit_id_refs_for_check
                                   (rewrite_unit m (rewrite_unit (id_mapping_of S T K) (u\<lparr>id' := int j\<rparr>)))))"
proof -
  note r = implant_units_result [OF assms(1-3)]
  let ?x = "extend_target tgt (T + K)"
  have cx: "ci < length (civs ?x)" using assms(5) by (simp add: extend_target_frame)
  have c1: "ci < length (civs tgt1)" using cx by (simp add: r(3))
  have new: "relocate m old = new" using assms(4) by (simp add: relocate_def)
  have g: "units (civs (fst (remap_unit_copy_base_ids_global tgt1 m)) ! ci) ! j = Some (rewrite_unit m v)"
    if "j < length (units (civs tgt1 ! ci))" "units (civs tgt1 ! ci) ! j = Some v" for v
    using that c1 by (simp add: remap_global_eq rewrite_store_nth)
  have A: "units (civs tgt1 ! ci) ! j = Some u
              \<and> units (civs (fst (remap_unit_copy_base_ids_global tgt1 m)) ! ci) ! j
                  = Some (rewrite_unit m u)
              \<and> (p, new) \<in> set (iter_unit_id_refs_for_check (rewrite_unit m u))"
    if "j < length (units (civs tgt ! ci))" "\<not> in_footprint T K j"
       "units (civs tgt ! ci) ! j = Some u"
  proof -
    have jx: "j < length (units (civs ?x ! ci))"
      using that(1) assms(5) by (simp add: extend_target_frame)
    then have j1: "j < length (units (civs tgt1 ! ci))" using cx by (simp add: r(3))
    have s: "units (civs tgt1 ! ci) ! j = Some u"
      using that assms(5) jx cx
      by (simp add: r(3) implanted_store_frame) (simp add: extend_target_frame nth_append)
    from g [OF j1 s] s refs_rewrite_unit_mem [OF assms(6), of m] new show ?thesis by simp
  qed
  have B: "units (civs tgt1 ! ci) ! j
                  = Some (rewrite_unit (id_mapping_of S T K) (u\<lparr>id' := int j\<rparr>))
              \<and> (p, old) \<in> set (iter_unit_id_refs_for_check
                                   (rewrite_unit (id_mapping_of S T K) (u\<lparr>id' := int j\<rparr>)))
              \<and> units (civs (fst (remap_unit_copy_base_ids_global tgt1 m)) ! ci) ! j
                  = Some (rewrite_unit m (rewrite_unit (id_mapping_of S T K) (u\<lparr>id' := int j\<rparr>)))
              \<and> (p, new) \<in> set (iter_unit_id_refs_for_check
                                   (rewrite_unit m (rewrite_unit (id_mapping_of S T K) (u\<lparr>id' := int j\<rparr>))))"
    if "in_footprint T K j" "source_unit_at src cef ci (S + (int j - T)) = Some u"
       "\<not> (S \<le> old \<and> old < S + K)"
  proof -
    let ?u1 = "rewrite_unit (id_mapping_of S T K) (u\<lparr>id' := int j\<rparr>)"
    have "j < length (units (civs ?x ! ci))"
      by (rule implanted_slot_in_range [OF assms(2) that(1) assms(5)])
    then have j1: "j < length (units (civs tgt1 ! ci))" using cx by (simp add: r(3))
    have s: "units (civs tgt1 ! ci) ! j = Some ?u1"
      unfolding r(3) implanted_unit_at [OF assms(2) that(1) assms(5)]
      by (simp add: that(2) clone_for_slot_eq)
    have keep: "relocate (id_mapping_of S T K) old = old"
      using that(3) by (auto simp: relocate_def id_mapping_of_eq)
    have "(p, old) \<in> set (iter_unit_id_refs_for_check (u\<lparr>id' := int j\<rparr>))"
      using assms(6) by simp
    from refs_rewrite_unit_mem [OF this, of "id_mapping_of S T K"] keep
    have o: "(p, old) \<in> set (iter_unit_id_refs_for_check ?u1)" by simp
    from refs_rewrite_unit_mem [OF o, of m] new
    have n: "(p, new) \<in> set (iter_unit_id_refs_for_check (rewrite_unit m ?u1))" by simp
    from s o g [OF j1 s] n show ?thesis by simp
  qed
  from A B show ?thesis by blast
qed


lemma example_override:
  "implant_units_from_dat
       (one_civ_store [Some (plain_unit 0 2), Some (plain_unit 1 2), Some (plain_unit 2 7)])
       (one_civ_store [Some (plain_unit 0 0), None, None, None, Some (plain_unit 4 5), Some (plain_unit 5 7)])
       0 None (Some 1) 0 True True
     = Inr (1,
            one_civ_store [Some (plain_unit 0 2), None, None, None,
                           Some (plain_unit 4 5), Some (plain_unit 5 7)],
            [RangeNotice 0 1 0, OverwriteNotice [0]])"
  by (simp add: implant_units_cases implant_eval)

theorem global_pass_corrects_outside_references_witness:
  "\<not> in_footprint 4 2 0
   \<and> in_footprint 0 1 0
   \<and> source_unit_at
        (one_civ_store [Some (plain_unit 0 2), Some (plain_unit 1 2), Some (plain_unit 2 7)])
        True 0 0 = Some (plain_unit 0 2)
   \<and> units (civs (one_civ_store [Some (plain_unit 0 2), None, None, None,
                               Some (plain_unit 4 5), Some (plain_unit 5 7)]) ! 0) ! 0
     = Some (plain_unit 0 2)
   \<and> units (civs (fst (remap_unit_copy_base_ids_global
                         (one_civ_store [Some (plain_unit 0 2), None, None, None,
                                         Some (plain_unit 4 5), Some (plain_unit 5 7)])
                         (id_mapping_of 1 4 2))) ! 0) ! 0
     = Some (plain_unit 0 5)
   \<and> (F_base_id, 2) \<in> set (iter_unit_id_refs_for_check (plain_unit 0 2))
   \<and> (F_base_id, 5) \<in> set (iter_unit_id_refs_for_check (plain_unit 0 5))"
proof -
  let ?tgt = "one_civ_store [Some (plain_unit 0 2), None, None, None, Some (plain_unit 4 4)]"
  let ?src2 = "one_civ_store [Some (plain_unit 0 2), Some (plain_unit 1 2), Some (plain_unit 2 7)]"
  let ?tgt2 = "one_civ_store [Some (plain_unit 0 0), None, None, None,
                              Some (plain_unit 4 5), Some (plain_unit 5 7)]"
  have a: "(0::int) \<le> 1" "(0::int) \<le> 4" "(0::int) \<le> 0" by simp_all
  have m: "id_mapping_of 1 4 2 2 = Some 5" by (simp add: id_mapping_of_eq)
  have ci: "0 < length (civs ?tgt)" "0 < length (civs ?tgt2)" by (simp_all add: one_civ_store_def)
  have p: "(F_base_id, 2) \<in> set (iter_unit_id_refs_for_check (plain_unit 0 2))"
    by (simp add: iter_unit_id_refs_for_check_def plain_unit_def)
  have rw: "rewrite_unit (id_mapping_of 1 4 2) (plain_unit 0 2) = plain_unit 0 5"
    by (simp add: rewrite_unit_def relocate_def id_mapping_of_eq plain_unit_def)
  have rw0: "rewrite_unit (id_mapping_of 0 0 1) ((plain_unit 0 2)\<lparr>id' := int 0\<rparr>) = plain_unit 0 2"
    by (simp add: rewrite_unit_def relocate_def id_mapping_of_eq plain_unit_def)
  have nf: "\<not> in_footprint 4 2 0" and fp: "in_footprint 0 1 0"
    by (simp_all add: in_footprint_def)
  have su: "source_unit_at ?src2 True 0 0 = Some (plain_unit 0 2)"
    by (simp add: source_unit_at_def one_civ_store_def)
  have pre: "0 < length (units (civs ?tgt ! 0)) \<and> \<not> in_footprint 4 2 0
               \<and> units (civs ?tgt ! 0) ! 0 = Some (plain_unit 0 2)"
    using nf by (simp add: one_civ_store_def)
  have pre2: "in_footprint 0 1 0 \<and> source_unit_at ?src2 True 0 (0 + (int 0 - 0)) = Some (plain_unit 0 2)
               \<and> \<not> ((0::int) \<le> 2 \<and> (2::int) < 0 + 1)"
    using fp su by simp
  note w = global_pass_corrects_outside_references
             [where m = "id_mapping_of 1 4 2" and old = 2 and new = 5 and j = 0,
              OF a(1,2) example_overwrite m ci(1) p, THEN conjunct1, rule_format, OF pre,
              unfolded rw]
  note w2 = global_pass_corrects_outside_references
             [where m = "id_mapping_of 1 4 2" and old = 2 and new = 5 and j = 0,
              OF a(3,3) example_override m ci(2) p, THEN conjunct2, rule_format, OF pre2,
              unfolded rw0 rw]
  from w w2 nf fp su p show ?thesis by simp
qed


section \<open>The consistency check\<close>

lemma check_units_eq:
  "\<forall>i \<in> set is. 0 \<le> i \<Longrightarrow>
     check_units old ci us is = Inr (concat (map (slot_issues old ci us) is))"
proof (induction "is")
  case Nil
  show ?case by simp
next
  case (Cons i "is")
  then have i: "0 \<le> i" and ih: "check_units old ci us is = Inr (concat (map (slot_issues old ci us) is))"
    by simp_all
  show ?case
  proof (cases "i < int (length us)")
    case False
    then show ?thesis by (simp add: ih slot_issues_def [of _ _ _ i])
  next
    case True
    then show ?thesis
      using i by (cases "us ! nat i") (simp_all add: ih slot_issues_def [of _ _ _ i] py_get_nat)
  qed
qed

lemma check_civs_eq:
  "\<forall>i \<in> set is. 0 \<le> i \<Longrightarrow>
     check_civs old is n cs =
       Inr (concat (map (\<lambda>(civ_idx, civ). concat (map (slot_issues old civ_idx (units civ)) is))
                      (enumerate n cs)))"
  by (induction cs arbitrary: n) (simp_all add: check_units_eq)

lemma check_eq:
  "\<forall>i \<in> set is. 0 \<le> i \<Longrightarrow> check_unit_id_coherence d is old = Inr (expected_issues d is old)"
  by (simp add: check_unit_id_coherence_def expected_issues_def check_civs_eq)

lemma annex_refs_paths:
  "(p, v) \<in> set (annex_refs i xs) \<Longrightarrow> \<exists>k \<ge> i. p = F_building_annexes_unit_id k"
proof (induction xs arbitrary: i)
  case Nil
  then show ?case by simp
next
  case (Cons x xs)
  show ?case
  proof (cases x)
    case None
    with Cons.prems have "(p, v) \<in> set (annex_refs (Suc i) xs)" by simp
    from Cons.IH [OF this] show ?thesis by (auto intro: Suc_leD)
  next
    case (Some a)
    with Cons.prems have "p = F_building_annexes_unit_id i \<or> (p, v) \<in> set (annex_refs (Suc i) xs)"
      by auto
    then show ?thesis
    proof
      assume "p = F_building_annexes_unit_id i"
      then show ?thesis by auto
    next
      assume "(p, v) \<in> set (annex_refs (Suc i) xs)"
      from Cons.IH [OF this] show ?thesis by (auto intro: Suc_leD)
    qed
  qed
qed

lemma annex_refs_distinct: "distinct (map fst (annex_refs i xs))"
proof (induction xs arbitrary: i)
  case Nil
  show ?case by simp
next
  case (Cons x xs)
  show ?case
  proof (cases x)
    case None
    then show ?thesis using Cons.IH [of "Suc i"] by simp
  next
    case (Some a)
    have "F_building_annexes_unit_id i \<notin> fst ` set (annex_refs (Suc i) xs)"
    proof
      assume "F_building_annexes_unit_id i \<in> fst ` set (annex_refs (Suc i) xs)"
      then obtain v where "(F_building_annexes_unit_id i, v) \<in> set (annex_refs (Suc i) xs)"
        by auto
      from annex_refs_paths [OF this] show False by auto
    qed
    with Some show ?thesis using Cons.IH [of "Suc i"] by simp
  qed
qed

lemma train_location_refs_paths:
  "(p, v) \<in> set (train_location_refs i xs) \<Longrightarrow> \<exists>k \<ge> i. p = F_creatable_train_locations_unit_id k"
proof (induction xs arbitrary: i)
  case Nil
  then show ?case by simp
next
  case (Cons x xs)
  show ?case
  proof (cases x)
    case None
    with Cons.prems have "(p, v) \<in> set (train_location_refs (Suc i) xs)" by simp
    from Cons.IH [OF this] show ?thesis by (auto intro: Suc_leD)
  next
    case (Some a)
    with Cons.prems
    have "p = F_creatable_train_locations_unit_id i \<or> (p, v) \<in> set (train_location_refs (Suc i) xs)"
      by auto
    then show ?thesis
    proof
      assume "p = F_creatable_train_locations_unit_id i"
      then show ?thesis by auto
    next
      assume "(p, v) \<in> set (train_location_refs (Suc i) xs)"
      from Cons.IH [OF this] show ?thesis by (auto intro: Suc_leD)
    qed
  qed
qed

lemma train_location_refs_distinct: "distinct (map fst (train_location_refs i xs))"
proof (induction xs arbitrary: i)
  case Nil
  show ?case by simp
next
  case (Cons x xs)
  show ?case
  proof (cases x)
    case None
    then show ?thesis using Cons.IH [of "Suc i"] by simp
  next
    case (Some a)
    have "F_creatable_train_locations_unit_id i \<notin> fst ` set (train_location_refs (Suc i) xs)"
    proof
      assume "F_creatable_train_locations_unit_id i \<in> fst ` set (train_location_refs (Suc i) xs)"
      then obtain v where
        "(F_creatable_train_locations_unit_id i, v) \<in> set (train_location_refs (Suc i) xs)"
        by auto
      from train_location_refs_paths [OF this] show False by auto
    qed
    with Some show ?thesis using Cons.IH [of "Suc i"] by simp
  qed
qed

lemma refs_paths_distinct: "distinct (map fst (iter_unit_id_refs_for_check u))"
  by (auto simp: iter_unit_id_refs_for_check_def annex_refs_distinct train_location_refs_distinct
        split: option.splits dest!: annex_refs_paths train_location_refs_paths)

lemma refs_paths_not_id: "(F_id, v) \<notin> set (iter_unit_id_refs_for_check u)"
  by (auto simp: iter_unit_id_refs_for_check_def split: option.splits
        dest!: annex_refs_paths train_location_refs_paths)


lemma unit_issues_mem:
  "(ui', ci', p, v) \<in> set (unit_issues old ci ui u) \<longleftrightarrow>
     ui' = ui \<and> ci' = ci \<and> flagged old ui u p v"
  by (auto simp: unit_issues_def flagged_def)

lemma unit_issues_distinct: "distinct (unit_issues old ci ui u)"
proof -
  have "distinct (iter_unit_id_refs_for_check u)"
    using refs_paths_distinct [of u] by (simp add: distinct_map)
  then have "distinct (map (\<lambda>(path, val). (ui, ci, path, val))
                 (filter (\<lambda>(path, val). val \<in> old) (iter_unit_id_refs_for_check u)))"
    by (auto simp: distinct_map inj_on_def)
  moreover have "(ui, ci, F_id, id' u) \<notin>
      set (map (\<lambda>(path, val). (ui, ci, path, val))
             (filter (\<lambda>(path, val). val \<in> old) (iter_unit_id_refs_for_check u)))"
    using refs_paths_not_id [of _ u] by auto
  ultimately show ?thesis
    by (simp add: unit_issues_def)
qed

lemma slot_issues_mem:
  "(ui', ci', p, v) \<in> set (slot_issues old ci us ui) \<longleftrightarrow>
     ui' = ui \<and> ci' = ci \<and> flagged_slot old us ui p v"
proof (cases "ui < int (length us)")
  case False
  then show ?thesis by (simp add: slot_issues_def flagged_slot_def)
next
  case True
  then show ?thesis
    by (cases "us ! nat ui") (simp_all add: slot_issues_def flagged_slot_def unit_issues_mem)
qed

lemma slot_issues_distinct: "distinct (slot_issues old ci us ui)"
  by (simp add: slot_issues_def unit_issues_distinct split: option.splits)

lemma distinct_concat_map:
  assumes "distinct xs"
    and "\<And>x. x \<in> set xs \<Longrightarrow> distinct (f x)"
    and "\<And>x y. x \<in> set xs \<Longrightarrow> y \<in> set xs \<Longrightarrow> x \<noteq> y \<Longrightarrow> set (f x) \<inter> set (f y) = {}"
  shows "distinct (concat (map f xs))"
  using assms
proof (induction xs)
  case Nil
  show ?case by simp
next
  case (Cons x xs)
  have "distinct (concat (map f xs))"
    using Cons.prems by (intro Cons.IH) auto
  moreover have "distinct (f x)" using Cons.prems(2) by simp
  moreover have "set (f x) \<inter> set (f y) = {}" if "y \<in> set xs" for y
    using Cons.prems(1) Cons.prems(3) [of x y] that by auto
  ultimately show ?case by auto
qed

lemma civ_issues_mem:
  "(ui, ci', p, v) \<in> set (concat (map (slot_issues old ci us) is)) \<longleftrightarrow>
     ui \<in> set is \<and> ci' = ci \<and> flagged_slot old us ui p v"
proof -
  have "(ui, ci', p, v) \<in> set (concat (map (slot_issues old ci us) is)) \<longleftrightarrow>
        (\<exists>x \<in> set is. (ui, ci', p, v) \<in> set (slot_issues old ci us x))"
    by simp
  also have "\<dots> \<longleftrightarrow> (\<exists>x \<in> set is. ui = x \<and> ci' = ci \<and> flagged_slot old us x p v)"
    by (simp only: slot_issues_mem)
  also have "\<dots> \<longleftrightarrow> (ui \<in> set is \<and> ci' = ci \<and> flagged_slot old us ui p v)"
    by blast
  finally show ?thesis .
qed

lemma civ_issues_distinct:
  assumes "distinct is"
  shows "distinct (concat (map (slot_issues old ci us) is))"
proof (rule distinct_concat_map [OF assms])
  show "distinct (slot_issues old ci us x)" for x by (rule slot_issues_distinct)
  show "set (slot_issues old ci us x) \<inter> set (slot_issues old ci us y) = {}" if "x \<noteq> y" for x y
  proof -
    have "a \<notin> set (slot_issues old ci us y)" if "a \<in> set (slot_issues old ci us x)" for a
    proof -
      obtain ui c p v where a: "a = (ui, c, p, v)" by (cases a)
      from that have "ui = x" by (simp only: a slot_issues_mem)
      with \<open>x \<noteq> y\<close> show ?thesis by (simp only: a slot_issues_mem) simp
    qed
    then show ?thesis by blast
  qed
qed

lemma concat_enumerate_mem:
  "x \<in> set (concat (map (\<lambda>(k, c). G k c) (enumerate 0 cs))) \<longleftrightarrow>
     (\<exists>k < length cs. x \<in> set (G k (cs ! k)))"
proof
  assume "x \<in> set (concat (map (\<lambda>(k, c). G k c) (enumerate 0 cs)))"
  then obtain k c where "(k, c) \<in> set (enumerate 0 cs)" "x \<in> set (G k c)"
    by auto
  then show "\<exists>k < length cs. x \<in> set (G k (cs ! k))"
    by (auto simp: in_set_enumerate_eq)
next
  assume "\<exists>k < length cs. x \<in> set (G k (cs ! k))"
  then obtain k where k: "k < length cs" "x \<in> set (G k (cs ! k))" by blast
  then have "(k, cs ! k) \<in> set (enumerate 0 cs)"
    by (simp add: in_set_enumerate_eq)
  with k(2) show "x \<in> set (concat (map (\<lambda>(k, c). G k c) (enumerate 0 cs)))"
    by force
qed

lemma expected_issues_mem:
  "(ui, ci, p, v) \<in> set (expected_issues d is old) \<longleftrightarrow>
     ui \<in> set is \<and> ci < length (civs d) \<and> flagged_slot old (units (civs d ! ci)) ui p v"
proof -
  have "(ui, ci, p, v) \<in> set (expected_issues d is old) \<longleftrightarrow>
        (\<exists>k < length (civs d).
           (ui, ci, p, v) \<in> set (concat (map (slot_issues old k (units (civs d ! k))) is)))"
    unfolding expected_issues_def by (rule concat_enumerate_mem)
  also have "\<dots> \<longleftrightarrow> (\<exists>k < length (civs d).
        ui \<in> set is \<and> ci = k \<and> flagged_slot old (units (civs d ! k)) ui p v)"
    by (simp only: civ_issues_mem)
  also have "\<dots> \<longleftrightarrow> (ui \<in> set is \<and> ci < length (civs d)
        \<and> flagged_slot old (units (civs d ! ci)) ui p v)"
    by blast
  finally show ?thesis .
qed


lemma expected_issues_distinct:
  assumes "distinct is"
  shows "distinct (expected_issues d is old)"
  unfolding expected_issues_def
proof (rule distinct_concat_map)
  show "distinct (enumerate 0 (civs d))"
    by simp
next
  fix x assume "x \<in> set (enumerate 0 (civs d))"
  obtain k c where x: "x = (k, c)" by (cases x)
  show "distinct (case x of (civ_idx, civ) \<Rightarrow> concat (map (slot_issues old civ_idx (units civ)) is))"
    unfolding x prod.case by (rule civ_issues_distinct [OF assms])
next
  fix x y
  assume xy: "x \<in> set (enumerate 0 (civs d))" "y \<in> set (enumerate 0 (civs d))" "x \<noteq> y"
  obtain k1 c1 k2 c2 where p: "x = (k1, c1)" "y = (k2, c2)"
    by (cases x, cases y)
  from xy have k: "k1 \<noteq> k2"
    unfolding p by (auto simp: in_set_enumerate_eq)
  have "a \<notin> set (concat (map (slot_issues old k2 (units c2)) is))"
    if "a \<in> set (concat (map (slot_issues old k1 (units c1)) is))" for a
  proof -
    obtain ui c q v where a: "a = (ui, c, q, v)" by (cases a)
    from that have "c = k1" by (simp only: a civ_issues_mem)
    with k show ?thesis by (simp only: a civ_issues_mem) simp
  qed
  then show "set (case x of (civ_idx, civ) \<Rightarrow> concat (map (slot_issues old civ_idx (units civ)) is))
           \<inter> set (case y of (civ_idx, civ) \<Rightarrow> concat (map (slot_issues old civ_idx (units civ)) is)) = {}"
    unfolding p prod.case by blast
qed

text \<open>
  C7. The consistency check is a function of the store that returns a list and nothing
  else: it has no store to hand back. For an index set of slot numbers that are not negative it never raises,
  and its issue list holds, once each, exactly: for every civilization and every unit at
  a slot of the index set, the issue \<open>F_id\<close> when the self id differs from the slot, and
  one issue for every enumerated reference field whose value is a stale id (the projectile
  unit only for a projectile object that has the attribute). A unit at a slot outside the
  index set contributes nothing, whatever it holds.
\<close>

theorem check_reports_exactly_the_issues:
  assumes "\<forall>i \<in> set indices. 0 \<le> i" "distinct indices"
  shows "check_unit_id_coherence data indices old = Inr (expected_issues data indices old)
       \<and> distinct (expected_issues data indices old)
       \<and> (\<forall>ui ci p v. (ui, ci, p, v) \<in> set (expected_issues data indices old) \<longleftrightarrow>
             ui \<in> set indices \<and> ci < length (civs data)
             \<and> ui < int (length (units (civs data ! ci)))
             \<and> (\<exists>u. units (civs data ! ci) ! nat ui = Some u
                    \<and> ((p = F_id \<and> v = id' u \<and> id' u \<noteq> ui)
                       \<or> ((p, v) \<in> set (iter_unit_id_refs_for_check u) \<and> v \<in> old))))"
proof (intro conjI allI)
  show "check_unit_id_coherence data indices old = Inr (expected_issues data indices old)"
    by (rule check_eq [OF assms(1)])
  show "distinct (expected_issues data indices old)"
    by (rule expected_issues_distinct [OF assms(2)])
  show "(ui, ci, p, v) \<in> set (expected_issues data indices old) \<longleftrightarrow>
             ui \<in> set indices \<and> ci < length (civs data)
             \<and> ui < int (length (units (civs data ! ci)))
             \<and> (\<exists>u. units (civs data ! ci) ! nat ui = Some u
                    \<and> ((p = F_id \<and> v = id' u \<and> id' u \<noteq> ui)
                       \<or> ((p, v) \<in> set (iter_unit_id_refs_for_check u) \<and> v \<in> old)))" for ui ci p v
    unfolding expected_issues_mem flagged_slot_def flagged_def by (rule refl)
qed

theorem check_reports_exactly_the_issues_witness:
  "(0::int) \<le> 4 \<and> (0::int) \<le> 5 \<and> distinct [4, 5 :: int]
   \<and> check_unit_id_coherence
        (one_civ_store
           [Some (plain_unit 0 1), None, None, None,
            Some ((plain_unit 4 1)
                    \<lparr>projectile := Some \<lparr>projectile_unit_id = None, projectile_type = 0\<rparr>\<rparr>),
            Some ((plain_unit 2 7)
                    \<lparr>projectile := Some \<lparr>projectile_unit_id = Some 3, projectile_type = 0\<rparr>\<rparr>)])
        [4, 5] {1, 3}
       = Inr [(4, 0, F_base_id, 1), (5, 0, F_id, 2), (5, 0, F_projectile_projectile_unit_id, 3)]"
proof -
  let ?d = "one_civ_store
           [Some (plain_unit 0 1), None, None, None,
            Some ((plain_unit 4 1)
                    \<lparr>projectile := Some \<lparr>projectile_unit_id = None, projectile_type = 0\<rparr>\<rparr>),
            Some ((plain_unit 2 7)
                    \<lparr>projectile := Some \<lparr>projectile_unit_id = Some 3, projectile_type = 0\<rparr>\<rparr>)]"
  have a: "\<forall>i \<in> set [4, 5 :: int]. 0 \<le> i" and d: "distinct [4, 5 :: int]" by simp_all
  have e: "expected_issues ?d [4, 5] {1, 3}
             = [(4, 0, F_base_id, 1), (5, 0, F_id, 2), (5, 0, F_projectile_projectile_unit_id, 3)]"
    by (simp add: expected_issues_def slot_issues_def unit_issues_def
          iter_unit_id_refs_for_check_def one_civ_store_def plain_unit_def)
  from check_reports_exactly_the_issues [OF a d, THEN conjunct1, of ?d "{1, 3}"]
  show ?thesis unfolding e by simp
qed

section \<open>The tech implant\<close>

lemma resolve_count_bounds:
  "resolve_count n S e c = Inr K \<Longrightarrow> S < n \<and> K \<le> n - S"
  by (auto simp: resolve_count_def split: if_splits option.splits)

lemma collect_effect_ids_eq:
  assumes "\<forall>i \<in> set idxs. 0 \<le> i \<and> i < int (length (techs src))
              \<and> 0 \<le> effect_id (techs src ! nat i)
              \<and> effect_id (techs src ! nat i) < int (length (effects src))"
  shows "collect_effect_ids src idxs = Inr (map (\<lambda>i. effect_id (techs src ! nat i)) idxs)"
  using assms by (induction idxs) (simp_all add: py_get_nat)

lemma overwritten_names_eq:
  assumes "\<forall>i \<in> set idxs. 0 \<le> i \<and> i < int (length xs)"
  shows "overwritten_names nm xs idxs = Inr (map (\<lambda>i. (i, nm (xs ! nat i))) idxs)"
  using assms by (induction idxs) (simp_all add: py_get_nat)

lemma implant_effects_eq:
  assumes "\<forall>eid \<in> set eids. 0 \<le> eid \<and> eid < int (length (effects src))
              \<and> 0 \<le> eid + D \<and> eid + D < int (length (effects tgt))"
  shows "implant_effects src D eids tgt =
     Inr (tgt\<lparr>effects :=
            map (\<lambda>j. if int j - D \<in> set eids then effects src ! nat (int j - D)
                     else effects tgt ! j)
              [0..<length (effects tgt)]\<rparr>)"
  using assms
proof (induction eids arbitrary: tgt)
  case Nil
  show ?case by (simp add: map_nth)
next
  case (Cons eid rest)
  let ?t = "tgt\<lparr>effects := (effects tgt)[nat (eid + D) := effects src ! nat eid]\<rparr>"
  from Cons.prems have e: "0 \<le> eid" "eid < int (length (effects src))"
    "0 \<le> eid + D" "eid + D < int (length (effects tgt))" by simp_all
  have step: "implant_effects src D (eid # rest) tgt = implant_effects src D rest ?t"
    using e by (simp add: py_get_nat py_set_nat)
  have pre: "\<forall>x \<in> set rest. 0 \<le> x \<and> x < int (length (effects src))
              \<and> 0 \<le> x + D \<and> x + D < int (length (effects ?t))"
    using Cons.prems by simp
  have "map (\<lambda>j. if int j - D \<in> set rest then effects src ! nat (int j - D)
                     else effects ?t ! j) [0..<length (effects ?t)]
      = map (\<lambda>j. if int j - D \<in> set (eid # rest) then effects src ! nat (int j - D)
                     else effects tgt ! j) [0..<length (effects tgt)]"
  proof (rule nth_equalityI)
    show "length (map (\<lambda>j. if int j - D \<in> set rest then effects src ! nat (int j - D)
                     else effects ?t ! j) [0..<length (effects ?t)])
        = length (map (\<lambda>j. if int j - D \<in> set (eid # rest) then effects src ! nat (int j - D)
                     else effects tgt ! j) [0..<length (effects tgt)])"
      by simp
  next
    fix j
    assume "j < length (map (\<lambda>j. if int j - D \<in> set rest then effects src ! nat (int j - D)
                     else effects ?t ! j) [0..<length (effects ?t)])"
    then have j: "j < length (effects tgt)" by simp
    show "map (\<lambda>j. if int j - D \<in> set rest then effects src ! nat (int j - D)
                     else effects ?t ! j) [0..<length (effects ?t)] ! j
        = map (\<lambda>j. if int j - D \<in> set (eid # rest) then effects src ! nat (int j - D)
                     else effects tgt ! j) [0..<length (effects tgt)] ! j"
    proof (cases "int j - D = eid")
      case True
      then have "j = nat (eid + D)" by simp
      with True j show ?thesis by simp
    next
      case False
      then have "j \<noteq> nat (eid + D)" using e(3) by auto
      with False j show ?thesis by simp
    qed
  qed
  with Cons.IH [OF pre] step show ?case by simp
qed

lemma implant_tech_slots_append:
  "implant_tech_slots src S E T (xs @ ys) tgt =
     (case implant_tech_slots src S E T xs tgt of
        Inl e \<Rightarrow> Inl e
      | Inr t \<Rightarrow> implant_tech_slots src S E T ys t)"
  by (induction xs arbitrary: tgt) (simp_all split: sum.splits)

lemma implant_tech_slots_eq:
  assumes "0 \<le> S" "0 \<le> T"
    and "S + int k \<le> int (length (techs src))"
    and "T + int k \<le> int (length (techs tgt))"
  shows "implant_tech_slots src S E T [0..<k] tgt =
     Inr (tgt\<lparr>techs :=
            map (\<lambda>j. if in_footprint T (int k) j
                     then shift_tech S E (T - S) (techs src ! nat (S + (int j - T)))
                     else techs tgt ! j)
              [0..<length (techs tgt)]\<rparr>)"
  using assms(3,4)
proof (induction k)
  case 0
  have nf: "in_footprint T 0 j = False" for j
    by (auto simp: in_footprint_def)
  show ?case by (simp add: nf map_nth)
next
  case (Suc k)
  let ?f = "\<lambda>j. shift_tech S E (T - S) (techs src ! nat (S + (int j - T)))"
  let ?ts = "map (\<lambda>j. if in_footprint T (int k) j then ?f j else techs tgt ! j)
               [0..<length (techs tgt)]"
  have ih: "implant_tech_slots src S E T [0..<k] tgt = Inr (tgt\<lparr>techs := ?ts\<rparr>)"
  proof (rule Suc.IH)
    show "S + int k \<le> int (length (techs src))" using Suc.prems(1) by simp
    show "T + int k \<le> int (length (techs tgt))" using Suc.prems(2) by simp
  qed
  have n: "0 \<le> T + int k" "0 \<le> S + int k" using assms(1,2) by simp_all
  have fk: "?f (nat (T + int k)) = shift_tech S E (T - S) (techs src ! nat (S + int k))"
    using n by simp
  have single: "implant_tech_slots src S E T [k] (tgt\<lparr>techs := ?ts\<rparr>) =
      Inr (tgt\<lparr>techs := ?ts[nat (T + int k) := ?f (nat (T + int k))]\<rparr>)"
    using n Suc.prems by (simp add: py_get_nat py_set_nat fk)
  have "implant_tech_slots src S E T [0..<Suc k] tgt =
      Inr (tgt\<lparr>techs := ?ts[nat (T + int k) := ?f (nat (T + int k))]\<rparr>)"
    unfolding upt_Suc_append [OF le0] implant_tech_slots_append ih using single by simp
  then show ?case
    unfolding footprint_update [OF assms(2), of k ?f "techs tgt"] by simp
qed

lemma ensure_length_ge: "n \<le> int (length (ensure_length xs n b))"
  by (simp add: ensure_length_eq)

lemma ensure_length_nonempty: "xs \<noteq> [] \<Longrightarrow> ensure_length xs n b \<noteq> []"
  by (simp add: ensure_length_eq)

lemma tech_effect_ids_nonempty: "0 < K \<Longrightarrow> tech_effect_ids src S K \<noteq> []"
  by (simp add: tech_effect_ids_def)

lemma effect_target_in_range:
  assumes "eid \<in> set (tech_effect_ids src S K)"
  shows "eid + (T - S) < int (length (extended_effects src tgt S T K))"
proof -
  have "eid + (T - S) \<in> set (map (\<lambda>eid. eid + (T - S)) (tech_effect_ids src S K))"
    using assms by simp
  then have "eid + (T - S) \<le> Max (set (map (\<lambda>eid. eid + (T - S)) (tech_effect_ids src S K)))"
    by (intro Max_ge) simp_all
  then have "eid + (T - S) < need_effect_len src S T K"
    by (simp add: need_effect_len_def)
  also have "\<dots> \<le> int (length (extended_effects src tgt S T K))"
    unfolding extended_effects_def by (rule ensure_length_ge)
  finally show ?thesis .
qed

lemma map_of_graph:
  "map_of (map (\<lambda>i. (i, g i)) xs) k = (if k \<in> set xs then Some (g k) else None)"
  by (induction xs) auto

lemma sort_remdups_cong: "set xs = set ys \<Longrightarrow> sort (remdups xs) = sort (remdups ys)"
  by (simp add: sorted_list_of_set_sort_remdups [symmetric])

lemma sorted_items_graph:
  "sorted_items (map (\<lambda>i. (i, g i)) xs) = map (\<lambda>i. (i, g i)) (sort (remdups xs))"
proof -
  have f: "map fst (map (\<lambda>i. (i, g i)) xs) = xs"
    by (simp add: o_def)
  have h: "map_of (rev (map (\<lambda>i. (i, g i)) xs)) k = Some (g k)" if "k \<in> set xs" for k
    using that map_of_graph [of g "rev xs" k] by (simp add: rev_map)
  show ?thesis
    unfolding sorted_items_def f by (rule map_cong [OF refl]) (simp add: h)
qed

lemma implant_techs_ok:
  assumes ready: "tech_implant_ready src tgt S T K"
    and rc: "resolve_count (int (length (techs src))) S e c = Inr K"
    and vis: "set (visit (tech_effect_ids src S K)) = set (tech_effect_ids src S K)"
  shows "implant_techs_from_dat visit src tgt S e c T warn =
     Inr (K, tech_implanted_store src S T K tgt, tech_implant_messages src tgt S T K warn)"
proof -
  let ?D = "T - S"
  let ?eids = "tech_effect_ids src S K"
  let ?vis = "visit ?eids"
  let ?t1 = "tgt\<lparr>effects := extended_effects src tgt S T K, techs := extended_techs tgt T K\<rparr>"
  let ?nm = "\<lambda>idx. (idx, effect_name (extended_effects src tgt S T K ! nat idx))"
  from ready have S: "0 \<le> S" and T: "0 \<le> T" and K: "0 < K"
    and fit: "S + K \<le> int (length (techs src))"
    and ne: "effects tgt \<noteq> []" "techs tgt \<noteq> []"
    and ids: "list_all (\<lambda>eid. 0 \<le> eid \<and> eid < int (length (effects src)) \<and> 0 \<le> eid + ?D) ?eids"
    by (simp_all add: tech_implant_ready_def)
  have k: "int (nat K) = K" using K by simp
  have idsD: "0 \<le> eid \<and> eid < int (length (effects src)) \<and> 0 \<le> eid + ?D"
    if "eid \<in> set ?eids" for eid
    using ids that by (simp add: list_all_iff)
  have col: "collect_effect_ids src (map (\<lambda>i. S + int i) [0..<nat K]) = Inr ?eids"
  proof -
    have "\<forall>i \<in> set (map (\<lambda>i. S + int i) [0..<nat K]).
            0 \<le> i \<and> i < int (length (techs src))
            \<and> 0 \<le> effect_id (techs src ! nat i)
            \<and> effect_id (techs src ! nat i) < int (length (effects src))"
    proof
      fix i assume "i \<in> set (map (\<lambda>i. S + int i) [0..<nat K])"
      then obtain n where n: "n < nat K" "i = S + int n" by auto
      then have "effect_id (techs src ! nat i) \<in> set ?eids"
        by (auto simp: tech_effect_ids_def)
      from idsD [OF this] n S fit show "0 \<le> i \<and> i < int (length (techs src))
            \<and> 0 \<le> effect_id (techs src ! nat i)
            \<and> effect_id (techs src ! nat i) < int (length (effects src))"
        by auto
    qed
    from collect_effect_ids_eq [OF this] show ?thesis
      by (simp add: tech_effect_ids_def o_def)
  qed
  have stD: "set (map (\<lambda>eid. eid + ?D) ?vis) = set (map (\<lambda>eid. eid + ?D) ?eids)"
    by (simp only: set_map vis)
  have mx: "Max (set (map (\<lambda>eid. eid + ?D) ?vis)) + 1 = need_effect_len src S T K"
    by (simp only: stD need_effect_len_def)
  have p0: "py_get (effects tgt) 0 = Inr (effects tgt ! 0)" "py_get (techs tgt) 0 = Inr (techs tgt ! 0)"
    using ne by (simp_all add: py_get_nat)
  have x1: "ensure_length (effects tgt) (need_effect_len src S T K) (effects tgt ! 0)
              = extended_effects src tgt S T K"
    by (simp add: extended_effects_def)
  have x2: "ensure_length (techs tgt) (T + K) (techs tgt ! 0) = extended_techs tgt T K"
    by (simp add: extended_techs_def)
  have inr: "0 \<le> eid \<and> eid < int (length (effects src))
              \<and> 0 \<le> eid + ?D \<and> eid + ?D < int (length (extended_effects src tgt S T K))"
    if "eid \<in> set ?vis" for eid
  proof -
    from that have m: "eid \<in> set ?eids" by (simp only: vis)
    from idsD [OF m] effect_target_in_range [OF m, of T tgt] show ?thesis by simp
  qed
  have oe: "overwritten_names effect_name (effects ?t1) (map (\<lambda>eid. eid + ?D) ?vis)
            = Inr (map ?nm (map (\<lambda>eid. eid + ?D) ?vis))"
  proof -
    have "\<forall>i \<in> set (map (\<lambda>eid. eid + ?D) ?vis).
            0 \<le> i \<and> i < int (length (effects ?t1))"
      using inr by auto
    from overwritten_names_eq [OF this] show ?thesis by simp
  qed
  have si: "sorted_items (map ?nm (map (\<lambda>eid. eid + ?D) ?vis))
            = map ?nm (sort (remdups (map (\<lambda>eid. eid + ?D) ?eids)))"
    unfolding sorted_items_graph by (simp only: sort_remdups_cong [OF stD])
  have ot: "overwritten_names tech_name (techs ?t1) (map (\<lambda>i. T + int i) [0..<nat K])
            = Inr (map (\<lambda>idx. (idx, tech_name (extended_techs tgt T K ! nat idx))) (footprint_slots T K))"
  proof -
    have "T + K \<le> int (length (extended_techs tgt T K))"
      unfolding extended_techs_def by (rule ensure_length_ge)
    then have "\<forall>i \<in> set (map (\<lambda>i. T + int i) [0..<nat K]).
            0 \<le> i \<and> i < int (length (extended_techs tgt T K))"
      using T K by auto
    from overwritten_names_eq [OF this] show ?thesis by (simp add: footprint_slots_def)
  qed
  have nonempty:
    "(map ?nm (map (\<lambda>eid. eid + ?D) ?vis) \<noteq> []) = True"
    "(map (\<lambda>idx. (idx, tech_name (extended_techs tgt T K ! nat idx))) (footprint_slots T K) \<noteq> [])
       = True"
  proof -
    have "set ?vis \<noteq> {}"
      using tech_effect_ids_nonempty [OF K, of src S] by (simp add: vis)
    then have "?vis \<noteq> []" by (simp only: set_empty not_False_eq_True)
    then show "(map ?nm (map (\<lambda>eid. eid + ?D) ?vis) \<noteq> []) = True"
      by (simp only: map_is_Nil_conv simp_thms)
    show "(map (\<lambda>idx. (idx, tech_name (extended_techs tgt T K ! nat idx))) (footprint_slots T K)
             \<noteq> []) = True"
      using K by (simp add: footprint_slots_def)
  qed
  have ie: "implant_effects src ?D ?vis ?t1 =
      Inr (?t1\<lparr>effects :=
             map (\<lambda>j. if int j - ?D \<in> set ?eids then effects src ! nat (int j - ?D)
                      else extended_effects src tgt S T K ! j)
               [0..<length (extended_effects src tgt S T K)]\<rparr>)"
  proof -
    have "\<forall>eid \<in> set ?vis. 0 \<le> eid \<and> eid < int (length (effects src))
              \<and> 0 \<le> eid + ?D \<and> eid + ?D < int (length (effects ?t1))"
      using inr by auto
    from implant_effects_eq [OF this] show ?thesis by (simp add: vis)
  qed
  let ?t2 = "?t1\<lparr>effects :=
             map (\<lambda>j. if int j - ?D \<in> set ?eids then effects src ! nat (int j - ?D)
                      else extended_effects src tgt S T K ! j)
               [0..<length (extended_effects src tgt S T K)]\<rparr>"
  have it: "implant_tech_slots src S (S + K - 1) T [0..<nat K] ?t2 =
      Inr (tech_implanted_store src S T K tgt)"
  proof -
    have a: "S + int (nat K) \<le> int (length (techs src))" unfolding k by (rule fit)
    have b: "T + int (nat K) \<le> int (length (techs ?t2))"
      unfolding k by (simp add: extended_techs_def ensure_length_ge)
    from implant_tech_slots_eq [OF S T a b, of "S + K - 1"] show ?thesis
      unfolding k by (simp add: tech_implanted_store_def)
  qed
  have nK: "(K \<le> 0) = False" using K by simp
  have msgs: "((if int (length (effects tgt)) < need_effect_len src S T K
          then [EffectExtendNotice (int (length (effects tgt))) (need_effect_len src S T K)] else [])
         @ (if int (length (techs tgt)) < T + K
            then [TechExtendNotice (int (length (techs tgt))) (T + K)] else [])
         @ [TechRangeNotice S K T ?D])
        @ (if warn \<and> True
           then [EffectOverwriteNotice
                   (map ?nm (sort (remdups (map (\<lambda>eid. eid + ?D) ?eids))))] else [])
        @ (if warn \<and> True
           then [TechOverwriteNotice
                   (map (\<lambda>idx. (idx, tech_name (extended_techs tgt T K ! nat idx)))
                      (footprint_slots T K))] else [])
      = tech_implant_messages src tgt S T K warn"
    by (simp add: tech_implant_messages_def del: set_sort set_remdups)
  show ?thesis
    unfolding implant_techs_from_dat_def
    by (simp only: rc sum.case nK if_False Let_def col mx p0 x1 x2 oe si ot nonempty ie it
          prod.case msgs)
qed

lemmas tech_eval =
  tech_implanted_store_def tech_implant_messages_def tech_implant_ready_def tech_effect_ids_def
  need_effect_len_def extended_effects_def extended_techs_def ensure_length_eq in_footprint_def
  footprint_slots_def shift_tech_def resolve_count_def tech_store_def tech_rec_def effect_rec_def
  eval_nat_numeral

lemma example_tech_implant:
  "implant_techs_from_dat ascending
     (tech_store [tech_rec ''a'' 1 [1, 7], tech_rec ''b'' 0 [- 1]] [effect_rec ''E0'', effect_rec ''E1''])
     (tech_store [tech_rec ''t'' 0 []] [effect_rec ''X0''])
     0 None (Some 2) 3 True
   = Inr (2,
          tech_store [tech_rec ''t'' 0 [], tech_rec ''t'' 0 [], tech_rec ''t'' 0 [],
                      tech_rec ''a'' 4 [4, 7], tech_rec ''b'' 3 [- 1]]
                     [effect_rec ''X0'', effect_rec ''X0'', effect_rec ''X0'',
                      effect_rec ''E0'', effect_rec ''E1''],
          [EffectExtendNotice 1 5, TechExtendNotice 1 5, TechRangeNotice 0 2 3 3,
           EffectOverwriteNotice [(3, ''X0''), (4, ''X0'')],
           TechOverwriteNotice [(3, ''t''), (4, ''t'')]])"
proof -
  let ?src = "tech_store [tech_rec ''a'' 1 [1, 7], tech_rec ''b'' 0 [- 1]] [effect_rec ''E0'', effect_rec ''E1'']"
  let ?tgt = "tech_store [tech_rec ''t'' 0 []] [effect_rec ''X0'']"
  have r: "tech_implant_ready ?src ?tgt 0 3 2"
    by (simp add: tech_eval)
  have c: "resolve_count (int (length (techs ?src))) 0 None (Some 2) = Inr 2"
    by (simp add: tech_eval)
  have v: "set (ascending (tech_effect_ids ?src S0 K0)) = set (tech_effect_ids ?src S0 K0)" for S0 K0
    by (simp add: ascending_def)
  show ?thesis
    unfolding implant_techs_ok [where visit = ascending, OF r c v]
    by (simp add: tech_eval)
qed


lemma example_tech_fresh_slot:
  "implant_techs_from_dat ascending
     (tech_store [tech_rec ''a'' 0 []] [effect_rec ''E0''])
     (tech_store [tech_rec ''t'' 0 []] [effect_rec ''X0''])
     0 None (Some 1) 1 True
   = Inr (1,
          tech_store [tech_rec ''t'' 0 [], tech_rec ''a'' 1 []] [effect_rec ''X0'', effect_rec ''E0''],
          [EffectExtendNotice 1 2, TechExtendNotice 1 2, TechRangeNotice 0 1 1 1,
           EffectOverwriteNotice [(1, ''X0'')], TechOverwriteNotice [(1, ''t'')]])"
proof -
  let ?src = "tech_store [tech_rec ''a'' 0 []] [effect_rec ''E0'']"
  let ?tgt = "tech_store [tech_rec ''t'' 0 []] [effect_rec ''X0'']"
  have r: "tech_implant_ready ?src ?tgt 0 1 1"
    by (simp add: tech_eval)
  have c: "resolve_count (int (length (techs ?src))) 0 None (Some 1) = Inr 1"
    by (simp add: tech_eval)
  have v: "set (ascending (tech_effect_ids ?src S0 K0)) = set (tech_effect_ids ?src S0 K0)" for S0 K0
    by (simp add: ascending_def)
  show ?thesis
    unfolding implant_techs_ok [where visit = ascending, OF r c v]
    by (simp add: tech_eval)
qed

lemma example_tech_negative_offset:
  "implant_techs_from_dat ascending
     (tech_store [tech_rec ''a'' 0 [], tech_rec ''b'' 0 []] [effect_rec ''E0''])
     (tech_store [tech_rec ''t'' 0 []] [effect_rec ''X0'', effect_rec ''X1''])
     1 None (Some 1) 0 True
   = Inr (1,
          tech_store [tech_rec ''b'' (- 1) []] [effect_rec ''X0'', effect_rec ''E0''],
          [TechRangeNotice 1 1 0 (- 1),
           EffectOverwriteNotice [(- 1, ''X1'')], TechOverwriteNotice [(0, ''t'')]])"
  by (simp add: implant_techs_from_dat_def Let_def py_get_def py_set_def py_index_def
        resolve_count_def ensure_length_eq shift_tech_def tech_store_def tech_rec_def
        effect_rec_def ascending_def sorted_items_def)

lemma example_tech_index_error:
  "implant_techs_from_dat ascending
     (tech_store [tech_rec ''a'' 0 [], tech_rec ''b'' 0 [], tech_rec ''c'' 0 []] [effect_rec ''E0''])
     (tech_store [tech_rec ''t'' 0 []] [effect_rec ''X0''])
     2 None (Some 1) 0 warn
   = Inl (IndexError,
          tech_store [tech_rec ''t'' 0 []] [effect_rec ''X0''],
          [TechRangeNotice 2 1 0 (- 2)])"
  by (simp add: implant_techs_from_dat_def Let_def py_get_def py_set_def py_index_def
        resolve_count_def ensure_length_eq shift_tech_def tech_store_def tech_rec_def
        effect_rec_def ascending_def sorted_items_def eval_nat_numeral)


lemma tech_implanted_lengths:
  "length (techs (tech_implanted_store src S T K tgt)) = length (extended_techs tgt T K)"
  "length (effects (tech_implanted_store src S T K tgt)) = length (extended_effects src tgt S T K)"
  by (simp_all add: tech_implanted_store_def)

text \<open>
  C8, as amended. For a tech implant with offset \<open>D = T - S\<close> whose referenced effect ids
  all stay non-negative under the offset (and whose target has a slot 0 to take the
  placeholders from), in whatever order a loop over the set of effect ids meets its
  members: the implant completes; the effects store has been extended to hold
  the highest \<open>effect_id + D\<close>; and for every tech of the range, the implanted tech's
  effect pointer is the old \<open>effect_id + D\<close>, and the effect slot with that index holds
  the source effect the old pointer named.
\<close>

theorem tech_effects_move_with_offset:
  assumes "tech_implant_ready src tgt S T K"
    and "resolve_count (int (length (techs src))) S e c = Inr K"
    and "i < nat K"
    and "set (visit (tech_effect_ids src S K)) = set (tech_effect_ids src S K)"
  shows "implant_techs_from_dat visit src tgt S e c T warn =
           Inr (K, tech_implanted_store src S T K tgt, tech_implant_messages src tgt S T K warn)
       \<and> need_effect_len src S T K \<le> int (length (effects (tech_implanted_store src S T K tgt)))
       \<and> effect_id (techs (tech_implanted_store src S T K tgt) ! (nat T + i))
           = effect_id (techs src ! (nat S + i)) + (T - S)
       \<and> nat (effect_id (techs src ! (nat S + i)) + (T - S))
           < length (effects (tech_implanted_store src S T K tgt))
       \<and> effects (tech_implanted_store src S T K tgt)
             ! nat (effect_id (techs src ! (nat S + i)) + (T - S))
           = effects src ! nat (effect_id (techs src ! (nat S + i)))"
proof -
  let ?D = "T - S"
  let ?eid = "effect_id (techs src ! (nat S + i))"
  let ?r = "tech_implanted_store src S T K tgt"
  from assms(1) have S: "0 \<le> S" and T: "0 \<le> T" and K: "0 < K"
    and ids: "list_all (\<lambda>eid. 0 \<le> eid \<and> eid < int (length (effects src)) \<and> 0 \<le> eid + ?D)
                (tech_effect_ids src S K)"
    by (simp_all add: tech_implant_ready_def)
  have si: "nat (S + int i) = nat S + i" and ti: "int (nat T + i) = T + int i"
    using S T by simp_all
  have mem: "?eid \<in> set (tech_effect_ids src S K)"
    unfolding tech_effect_ids_def set_map
    by (rule image_eqI [where x = i]) (use assms(3) si in simp_all)
  with ids have e: "0 \<le> ?eid" "0 \<le> ?eid + ?D"
    by (simp_all add: list_all_iff)
  have a: "need_effect_len src S T K \<le> int (length (effects ?r))"
    by (simp add: tech_implanted_lengths extended_effects_def ensure_length_ge)
  have fp: "in_footprint T K (nat T + i)"
    using assms(3) T by (auto simp: in_footprint_def)
  have "T + K \<le> int (length (extended_techs tgt T K))"
    unfolding extended_techs_def by (rule ensure_length_ge)
  then have tl: "nat T + i < length (extended_techs tgt T K)"
    using assms(3) T by auto
  have b: "effect_id (techs ?r ! (nat T + i)) = ?eid + ?D"
  proof -
    have "S + (int (nat T + i) - T) = S + int i" using T by simp
    then have "nat (S + (int (nat T + i) - T)) = nat S + i" using si by simp
    with tl fp show ?thesis
      by (simp add: tech_implanted_store_def shift_tech_def del: of_nat_add)
  qed
  have el: "nat (?eid + ?D) < length (extended_effects src tgt S T K)"
    using effect_target_in_range [OF mem, of T tgt] e by simp
  have inv: "int (nat (?eid + ?D)) - ?D = ?eid"
    using e by simp
  have c: "effects ?r ! nat (?eid + ?D) = effects src ! nat ?eid"
  proof -
    have "effects ?r ! nat (?eid + ?D) =
          (if int (nat (?eid + ?D)) - ?D \<in> set (tech_effect_ids src S K)
           then effects src ! nat (int (nat (?eid + ?D)) - ?D)
           else extended_effects src tgt S T K ! nat (?eid + ?D))"
      using el by (simp add: tech_implanted_store_def del: int_nat_eq)
    then show ?thesis
      unfolding inv using mem by simp
  qed
  from implant_techs_ok [where visit = visit, OF assms(1,2,4)] a b el c show ?thesis
    by (simp add: tech_implanted_lengths)
qed

theorem tech_effects_move_with_offset_witness:
  "implant_techs_from_dat ascending
     (tech_store [tech_rec ''a'' 1 [1, 7], tech_rec ''b'' 0 [- 1]] [effect_rec ''E0'', effect_rec ''E1''])
     (tech_store [tech_rec ''t'' 0 []] [effect_rec ''X0''])
     0 None (Some 2) 3 True
   = Inr (2,
          tech_store [tech_rec ''t'' 0 [], tech_rec ''t'' 0 [], tech_rec ''t'' 0 [],
                      tech_rec ''a'' 4 [4, 7], tech_rec ''b'' 3 [- 1]]
                     [effect_rec ''X0'', effect_rec ''X0'', effect_rec ''X0'',
                      effect_rec ''E0'', effect_rec ''E1''],
          [EffectExtendNotice 1 5, TechExtendNotice 1 5, TechRangeNotice 0 2 3 3,
           EffectOverwriteNotice [(3, ''X0''), (4, ''X0'')],
           TechOverwriteNotice [(3, ''t''), (4, ''t'')]])
   \<and> effect_id (tech_rec ''a'' 4 [4, 7]) = effect_id (tech_rec ''a'' 1 [1, 7]) + (3 - 0)"
proof -
  let ?src = "tech_store [tech_rec ''a'' 1 [1, 7], tech_rec ''b'' 0 [- 1]] [effect_rec ''E0'', effect_rec ''E1'']"
  let ?tgt = "tech_store [tech_rec ''t'' 0 []] [effect_rec ''X0'']"
  have r: "tech_implant_ready ?src ?tgt 0 3 2"
    by (simp add: tech_eval)
  have c: "resolve_count (int (length (techs ?src))) 0 None (Some 2) = Inr 2"
    by (simp add: tech_eval)
  have i: "(0::nat) < nat 2" by simp
  have v: "set (ascending (tech_effect_ids ?src 0 2)) = set (tech_effect_ids ?src 0 2)"
    by (simp add: ascending_def)
  have s: "tech_implanted_store ?src 0 3 2 ?tgt =
          tech_store [tech_rec ''t'' 0 [], tech_rec ''t'' 0 [], tech_rec ''t'' 0 [],
                      tech_rec ''a'' 4 [4, 7], tech_rec ''b'' 3 [- 1]]
                     [effect_rec ''X0'', effect_rec ''X0'', effect_rec ''X0'',
                      effect_rec ''E0'', effect_rec ''E1'']"
    by (simp add: tech_eval)
  have m: "tech_implant_messages ?src ?tgt 0 3 2 True =
          [EffectExtendNotice 1 5, TechExtendNotice 1 5, TechRangeNotice 0 2 3 3,
           EffectOverwriteNotice [(3, ''X0''), (4, ''X0'')],
           TechOverwriteNotice [(3, ''t''), (4, ''t'')]]"
    by (simp add: tech_eval)
  note w = tech_effects_move_with_offset [where visit = ascending, OF r c i v, of True, unfolded s m]
  from w show ?thesis by (simp add: tech_store_def tech_rec_def)
qed

text \<open>
  The claim as stated fails when the offset takes an effect id below 0: moving tech 1,
  which points to effect 0, to slot 0 gives the offset -1; the effect is written to the
  last slot of the target's effects (slot 1), and the tech's pointer becomes -1.
\<close>

theorem tech_negative_offset_misplaces_effect:
  "implant_techs_from_dat ascending
     (tech_store [tech_rec ''a'' 0 [], tech_rec ''b'' 0 []] [effect_rec ''E0''])
     (tech_store [tech_rec ''t'' 0 []] [effect_rec ''X0'', effect_rec ''X1''])
     1 None (Some 1) 0 True
   = Inr (1,
          tech_store [tech_rec ''b'' (- 1) []] [effect_rec ''X0'', effect_rec ''E0''],
          [TechRangeNotice 1 1 0 (- 1),
           EffectOverwriteNotice [(- 1, ''X1'')], TechOverwriteNotice [(0, ''t'')]])
   \<and> effect_id (tech_rec ''b'' 0 []) + (0 - 1) = - 1
   \<and> effects (tech_store [tech_rec ''b'' (- 1) []] [effect_rec ''X0'', effect_rec ''E0'']) ! 1
       = effect_rec ''E0''"
proof -
  have "effect_id (tech_rec ''b'' 0 []) + (0 - 1) = - 1"
    by (simp add: tech_rec_def)
  moreover have
    "effects (tech_store [tech_rec ''b'' (- 1) []] [effect_rec ''X0'', effect_rec ''E0'']) ! 1
       = effect_rec ''E0''"
    by (simp add: tech_store_def)
  ultimately show ?thesis
    using example_tech_negative_offset by simp
qed


lemma set_footprint_slots: "set (footprint_slots T K) = {idx. T \<le> idx \<and> idx < T + K}"
proof
  show "set (footprint_slots T K) \<subseteq> {idx. T \<le> idx \<and> idx < T + K}"
    by (auto simp: footprint_slots_def)
  show "{idx. T \<le> idx \<and> idx < T + K} \<subseteq> set (footprint_slots T K)"
  proof
    fix idx assume "idx \<in> {idx. T \<le> idx \<and> idx < T + K}"
    then have "T \<le> idx" "idx < T + K" by simp_all
    then have "nat (idx - T) < nat K" "idx = T + int (nat (idx - T))" by simp_all
    then show "idx \<in> set (footprint_slots T K)"
      unfolding footprint_slots_def set_map set_upt by (intro image_eqI [where x = "nat (idx - T)"]) simp_all
  qed
qed

lemma tech_implanted_tech_at:
  assumes ready: "tech_implant_ready src tgt S T K"
    and mem: "idx \<in> set (footprint_slots T K)"
  shows "0 \<le> idx \<and> nat idx < length (techs (tech_implanted_store src S T K tgt))
         \<and> techs (tech_implanted_store src S T K tgt) ! nat idx
             = shift_tech S (S + K - 1) (T - S) (techs src ! nat (S + (idx - T)))"
proof -
  from ready have T: "0 \<le> T" by (simp add: tech_implant_ready_def)
  from mem have r: "T \<le> idx" "idx < T + K" by (simp_all add: set_footprint_slots)
  with T have p: "0 \<le> idx" by simp
  then have k: "int (nat idx) = idx" by simp
  have "T + K \<le> int (length (extended_techs tgt T K))"
    unfolding extended_techs_def by (rule ensure_length_ge)
  with r p have l: "nat idx < length (extended_techs tgt T K)" by simp
  have fp: "in_footprint T K (nat idx)"
    unfolding in_footprint_def k using r by simp
  have "techs (tech_implanted_store src S T K tgt) ! nat idx
          = shift_tech S (S + K - 1) (T - S) (techs src ! nat (S + (int (nat idx) - T)))"
    using l fp by (simp add: tech_implanted_store_def del: int_nat_eq)
  then show ?thesis
    unfolding k using p l by (simp add: tech_implanted_lengths)
qed

lemma tech_implanted_effect_at:
  assumes ready: "tech_implant_ready src tgt S T K"
    and mem: "eid \<in> set (tech_effect_ids src S K)"
  shows "0 \<le> eid + (T - S)
         \<and> nat (eid + (T - S)) < length (effects (tech_implanted_store src S T K tgt))
         \<and> effects (tech_implanted_store src S T K tgt) ! nat (eid + (T - S))
             = effects src ! nat eid"
proof -
  let ?D = "T - S"
  from ready have "list_all (\<lambda>eid. 0 \<le> eid \<and> eid < int (length (effects src)) \<and> 0 \<le> eid + ?D)
                     (tech_effect_ids src S K)"
    by (simp add: tech_implant_ready_def)
  with mem have e: "0 \<le> eid" "0 \<le> eid + ?D"
    by (simp_all add: list_all_iff)
  have el: "nat (eid + ?D) < length (extended_effects src tgt S T K)"
    using effect_target_in_range [OF mem, of T tgt] e by simp
  have inv: "int (nat (eid + ?D)) - ?D = eid"
    using e by simp
  have "effects (tech_implanted_store src S T K tgt) ! nat (eid + ?D) =
          (if int (nat (eid + ?D)) - ?D \<in> set (tech_effect_ids src S K)
           then effects src ! nat (int (nat (eid + ?D)) - ?D)
           else extended_effects src tgt S T K ! nat (eid + ?D))"
    using el by (simp add: tech_implanted_store_def del: int_nat_eq)
  then have "effects (tech_implanted_store src S T K tgt) ! nat (eid + ?D) = effects src ! nat eid"
    unfolding inv using mem by simp
  with e el show ?thesis
    by (simp add: tech_implanted_lengths)
qed

text \<open>
  C9, as amended. A unit implant whose start slots are not negative and whose range passes
  the range checks with a count above 0 reports, when the warn flag is set and only then,
  the destination slots of its footprint that held a record before the implant (a header
  that is not blank, or a unit in some civilization), and nothing when there is none; it
  then writes the footprint and returns the count.

  A tech implant whose start slots are not negative, whose range passes the range checks
  with a count above 0, whose referenced effect ids lie inside the source's effects and
  stay non-negative under the offset, and whose target has a slot 0 in its techs and in
  its effects, reports, when the warn flag is set and only then, every destination effect
  slot and every tech slot of its footprint, each with the name found there once the
  target has been extended, whether the slot existed before the implant or not; it then
  returns the count, and the slots it has named are the slots it has written: every tech
  slot of the footprint holds the source tech with its pointers moved, and every
  destination effect slot holds the source effect. This holds in whatever order a loop
  over the set of effect ids meets its members.
\<close>

theorem overwrite_notice_is_informational:
  "(0 \<le> S \<and> 0 \<le> T \<and> resolve_count (n_units src) S e c = Inr K \<and> 0 < K \<longrightarrow>
      implant_units_from_dat src tgt S e c T warn cef =
        Inr (K, implanted_store src cef (id_mapping_of S T K) S T K (extend_target tgt (T + K)),
             implant_messages tgt S T K warn)
      \<and> (OverwriteNotice L \<in> set (implant_messages tgt S T K warn) \<longleftrightarrow>
            warn \<and> L \<noteq> [] \<and> L = overwritten_slots tgt T K)
      \<and> set (overwritten_slots tgt T K) = {idx. T \<le> idx \<and> idx < T + K \<and> slot_nonblank tgt idx})
   \<and> (tech_implant_ready tsrc ttgt S' T' K'
        \<and> resolve_count (int (length (techs tsrc))) S' e' c' = Inr K'
        \<and> set (visit (tech_effect_ids tsrc S' K')) = set (tech_effect_ids tsrc S' K') \<longrightarrow>
      implant_techs_from_dat visit tsrc ttgt S' e' c' T' warn =
        Inr (K', tech_implanted_store tsrc S' T' K' ttgt, tech_implant_messages tsrc ttgt S' T' K' warn)
      \<and> (TechOverwriteNotice L' \<in> set (tech_implant_messages tsrc ttgt S' T' K' warn) \<longleftrightarrow>
            warn \<and> L' = map (\<lambda>idx. (idx, tech_name (extended_techs ttgt T' K' ! nat idx)))
                           (footprint_slots T' K'))
      \<and> (EffectOverwriteNotice L'' \<in> set (tech_implant_messages tsrc ttgt S' T' K' warn) \<longleftrightarrow>
            warn \<and> L'' = map (\<lambda>idx. (idx, effect_name (extended_effects tsrc ttgt S' T' K' ! nat idx)))
                            (sort (remdups (map (\<lambda>eid. eid + (T' - S'))
                                                (tech_effect_ids tsrc S' K')))))
      \<and> (\<forall>idx \<in> set (footprint_slots T' K').
            0 \<le> idx \<and> nat idx < length (techs (tech_implanted_store tsrc S' T' K' ttgt))
            \<and> techs (tech_implanted_store tsrc S' T' K' ttgt) ! nat idx
                = shift_tech S' (S' + K' - 1) (T' - S') (techs tsrc ! nat (S' + (idx - T'))))
      \<and> (\<forall>eid \<in> set (tech_effect_ids tsrc S' K').
            0 \<le> eid + (T' - S')
            \<and> nat (eid + (T' - S')) < length (effects (tech_implanted_store tsrc S' T' K' ttgt))
            \<and> effects (tech_implanted_store tsrc S' T' K' ttgt) ! nat (eid + (T' - S'))
                = effects tsrc ! nat eid))"
proof (intro conjI impI)
  assume a: "0 \<le> S \<and> 0 \<le> T \<and> resolve_count (n_units src) S e c = Inr K \<and> 0 < K"
  then show "implant_units_from_dat src tgt S e c T warn cef =
        Inr (K, implanted_store src cef (id_mapping_of S T K) S T K (extend_target tgt (T + K)),
             implant_messages tgt S T K warn)"
    by (intro implant_units_ok) simp_all
  show "OverwriteNotice L \<in> set (implant_messages tgt S T K warn) \<longleftrightarrow>
            warn \<and> L \<noteq> [] \<and> L = overwritten_slots tgt T K"
    by (auto simp: implant_messages_def)
  show "set (overwritten_slots tgt T K) = {idx. T \<le> idx \<and> idx < T + K \<and> slot_nonblank tgt idx}"
    by (auto simp: overwritten_slots_def set_footprint_slots)
next
  assume b: "tech_implant_ready tsrc ttgt S' T' K'
        \<and> resolve_count (int (length (techs tsrc))) S' e' c' = Inr K'
        \<and> set (visit (tech_effect_ids tsrc S' K')) = set (tech_effect_ids tsrc S' K')"
  then have ready: "tech_implant_ready tsrc ttgt S' T' K'"
    and rc: "resolve_count (int (length (techs tsrc))) S' e' c' = Inr K'"
    and vis: "set (visit (tech_effect_ids tsrc S' K')) = set (tech_effect_ids tsrc S' K')"
    by simp_all
  show "implant_techs_from_dat visit tsrc ttgt S' e' c' T' warn =
        Inr (K', tech_implanted_store tsrc S' T' K' ttgt, tech_implant_messages tsrc ttgt S' T' K' warn)"
    by (rule implant_techs_ok [where visit = visit, OF ready rc vis])
  show "TechOverwriteNotice L' \<in> set (tech_implant_messages tsrc ttgt S' T' K' warn) \<longleftrightarrow>
            warn \<and> L' = map (\<lambda>idx. (idx, tech_name (extended_techs ttgt T' K' ! nat idx)))
                           (footprint_slots T' K')"
    by (auto simp: tech_implant_messages_def)
  show "EffectOverwriteNotice L'' \<in> set (tech_implant_messages tsrc ttgt S' T' K' warn) \<longleftrightarrow>
            warn \<and> L'' = map (\<lambda>idx. (idx, effect_name (extended_effects tsrc ttgt S' T' K' ! nat idx)))
                            (sort (remdups (map (\<lambda>eid. eid + (T' - S'))
                                                (tech_effect_ids tsrc S' K'))))"
    by (auto simp: tech_implant_messages_def)
  show "\<forall>idx \<in> set (footprint_slots T' K').
            0 \<le> idx \<and> nat idx < length (techs (tech_implanted_store tsrc S' T' K' ttgt))
            \<and> techs (tech_implanted_store tsrc S' T' K' ttgt) ! nat idx
                = shift_tech S' (S' + K' - 1) (T' - S') (techs tsrc ! nat (S' + (idx - T')))"
    using tech_implanted_tech_at [OF ready] by blast
  show "\<forall>eid \<in> set (tech_effect_ids tsrc S' K').
            0 \<le> eid + (T' - S')
            \<and> nat (eid + (T' - S')) < length (effects (tech_implanted_store tsrc S' T' K' ttgt))
            \<and> effects (tech_implanted_store tsrc S' T' K' ttgt) ! nat (eid + (T' - S'))
                = effects tsrc ! nat eid"
    using tech_implanted_effect_at [OF ready] by blast
qed

theorem overwrite_notice_is_informational_witness:
  "implant_units_from_dat
       (one_civ_store [Some (plain_unit 0 0), Some (plain_unit 1 2), Some (plain_unit 2 7)])
       (one_civ_store [Some (plain_unit 0 2), None, None, None, Some (plain_unit 4 4)])
       1 None (Some 9) 4 True True
     = Inr (2,
            one_civ_store [Some (plain_unit 0 2), None, None, None,
                           Some (plain_unit 4 5), Some (plain_unit 5 7)],
            [ExtendNotice 5 6, RangeNotice 1 2 4, OverwriteNotice [4]])
   \<and> overwritten_slots
         (one_civ_store [Some (plain_unit 0 2), None, None, None, Some (plain_unit 4 4)]) 4 2 = [4]
   \<and> implant_techs_from_dat ascending
         (tech_store [tech_rec ''a'' 1 [1, 7], tech_rec ''b'' 0 [- 1]] [effect_rec ''E0'', effect_rec ''E1''])
         (tech_store [tech_rec ''t'' 0 []] [effect_rec ''X0''])
         0 None (Some 2) 3 True
       = Inr (2,
              tech_store [tech_rec ''t'' 0 [], tech_rec ''t'' 0 [], tech_rec ''t'' 0 [],
                          tech_rec ''a'' 4 [4, 7], tech_rec ''b'' 3 [- 1]]
                         [effect_rec ''X0'', effect_rec ''X0'', effect_rec ''X0'',
                          effect_rec ''E0'', effect_rec ''E1''],
              [EffectExtendNotice 1 5, TechExtendNotice 1 5, TechRangeNotice 0 2 3 3,
               EffectOverwriteNotice [(3, ''X0''), (4, ''X0'')],
               TechOverwriteNotice [(3, ''t''), (4, ''t'')]])"
proof -
  let ?src = "one_civ_store [Some (plain_unit 0 0), Some (plain_unit 1 2), Some (plain_unit 2 7)]"
  let ?tgt = "one_civ_store [Some (plain_unit 0 2), None, None, None, Some (plain_unit 4 4)]"
  let ?tsrc = "tech_store [tech_rec ''a'' 1 [1, 7], tech_rec ''b'' 0 [- 1]]
                 [effect_rec ''E0'', effect_rec ''E1'']"
  let ?ttgt = "tech_store [tech_rec ''t'' 0 []] [effect_rec ''X0'']"
  have pre: "(0::int) \<le> 1 \<and> (0::int) \<le> 4
             \<and> resolve_count (n_units ?src) 1 None (Some 9) = Inr 2 \<and> (0::int) < 2"
    by (simp add: resolve_count_def n_units_def one_civ_store_def)
  have v: "set (ascending (tech_effect_ids ?tsrc 0 2)) = set (tech_effect_ids ?tsrc 0 2)"
    by (simp add: ascending_def)
  have "tech_implant_ready ?tsrc ?ttgt 0 3 2
        \<and> resolve_count (int (length (techs ?tsrc))) 0 None (Some 2) = Inr 2"
    by (simp add: tech_eval)
  with v have pre': "tech_implant_ready ?tsrc ?ttgt 0 3 2
              \<and> resolve_count (int (length (techs ?tsrc))) 0 None (Some 2) = Inr 2
              \<and> set (ascending (tech_effect_ids ?tsrc 0 2)) = set (tech_effect_ids ?tsrc 0 2)"
    by (simp only: simp_thms)
  have s: "implanted_store ?src True (id_mapping_of 1 4 2) 1 4 2 (extend_target ?tgt (4 + 2)) =
      one_civ_store [Some (plain_unit 0 2), None, None, None,
                     Some (plain_unit 4 5), Some (plain_unit 5 7)]"
    by (simp add: implant_eval)
  have o: "overwritten_slots ?tgt 4 2 = [4]"
    by (simp add: implant_eval)
  have m: "implant_messages ?tgt 1 4 2 True = [ExtendNotice 5 6, RangeNotice 1 2 4, OverwriteNotice [4]]"
    by (simp add: implant_eval)
  have s': "tech_implanted_store ?tsrc 0 3 2 ?ttgt =
          tech_store [tech_rec ''t'' 0 [], tech_rec ''t'' 0 [], tech_rec ''t'' 0 [],
                      tech_rec ''a'' 4 [4, 7], tech_rec ''b'' 3 [- 1]]
                     [effect_rec ''X0'', effect_rec ''X0'', effect_rec ''X0'',
                      effect_rec ''E0'', effect_rec ''E1'']"
    by (simp add: tech_eval)
  have m': "tech_implant_messages ?tsrc ?ttgt 0 3 2 True =
          [EffectExtendNotice 1 5, TechExtendNotice 1 5, TechRangeNotice 0 2 3 3,
           EffectOverwriteNotice [(3, ''X0''), (4, ''X0'')],
           TechOverwriteNotice [(3, ''t''), (4, ''t'')]]"
    by (simp add: tech_eval)
  note w = overwrite_notice_is_informational
             [where S = 1 and T = 4 and src = ?src and e = None and c = "Some 9" and K = 2
                and tgt = ?tgt and warn = True and cef = True
                and visit = ascending
                and tsrc = ?tsrc and ttgt = ?ttgt and S' = 0 and T' = 3 and K' = 2
                and e' = None and c' = "Some 2"]
  note u = w [THEN conjunct1, rule_format, OF pre, THEN conjunct1, unfolded s m]
  note t = w [THEN conjunct2, rule_format, OF pre', THEN conjunct1, unfolded s' m']
  from u o t show ?thesis by simp
qed

text \<open>
  The claim as stated fails for a tech implant. The target has one tech slot, the implant
  writes slot 1, which the extension has just created, and the notice names it. And the
  implant does not always return: moving tech 2, which points to effect 0, to slot 0 of a
  target with one effect gives the offset -2, and the lookup of the name in effect slot -2
  raises IndexError before anything is written, with the warn flag set or not.
\<close>

theorem tech_notice_names_fresh_slot:
  "length (techs (tech_store [tech_rec ''t'' 0 []] [effect_rec ''X0''])) = 1
   \<and> implant_techs_from_dat ascending
       (tech_store [tech_rec ''a'' 0 []] [effect_rec ''E0''])
       (tech_store [tech_rec ''t'' 0 []] [effect_rec ''X0''])
       0 None (Some 1) 1 True
     = Inr (1,
            tech_store [tech_rec ''t'' 0 [], tech_rec ''a'' 1 []] [effect_rec ''X0'', effect_rec ''E0''],
            [EffectExtendNotice 1 2, TechExtendNotice 1 2, TechRangeNotice 0 1 1 1,
             EffectOverwriteNotice [(1, ''X0'')], TechOverwriteNotice [(1, ''t'')]])
   \<and> implant_techs_from_dat ascending
       (tech_store [tech_rec ''a'' 0 [], tech_rec ''b'' 0 [], tech_rec ''c'' 0 []] [effect_rec ''E0''])
       (tech_store [tech_rec ''t'' 0 []] [effect_rec ''X0''])
       2 None (Some 1) 0 True
     = Inl (IndexError,
            tech_store [tech_rec ''t'' 0 []] [effect_rec ''X0''],
            [TechRangeNotice 2 1 0 (- 2)])
   \<and> implant_techs_from_dat ascending
       (tech_store [tech_rec ''a'' 0 [], tech_rec ''b'' 0 [], tech_rec ''c'' 0 []] [effect_rec ''E0''])
       (tech_store [tech_rec ''t'' 0 []] [effect_rec ''X0''])
       2 None (Some 1) 0 False
     = Inl (IndexError,
            tech_store [tech_rec ''t'' 0 []] [effect_rec ''X0''],
            [TechRangeNotice 2 1 0 (- 2)])"
proof -
  have "length (techs (tech_store [tech_rec ''t'' 0 []] [effect_rec ''X0''])) = 1"
    by (simp add: tech_store_def)
  with example_tech_fresh_slot example_tech_index_error [of True]
    example_tech_index_error [of False]
  show ?thesis by simp
qed

end
